theory Spec2Isabelle
  imports Main "HOL-Library.Multiset"
begin

section \<open>Data model\<close>

text \<open>
  The two interfaces of the bookmark manager. Optional fields (\<open>parentId?\<close>,
  \<open>groupId?\<close>, \<open>priority?\<close>, \<open>description?\<close>) are options; \<open>None\<close> is
  \<open>undefined\<close>. A \<open>Date\<close> is its \<open>getTime()\<close> value, an integer number of
  milliseconds. Priorities are integers, as the data model of the specification has them.
\<close>

record BookmarkGroup =
  g_id :: string
  g_name :: string
  g_isDefault :: bool
  g_created :: int
  g_parentId :: "string option"
  g_priority :: "int option"

record Bookmark =
  b_id :: string
  b_label :: string
  b_file :: string
  b_line :: int
  b_column :: int
  b_description :: "string option"
  b_created :: int
  b_groupId :: "string option"
  b_priority :: "int option"

text \<open>
  The state of a \<open>BookmarkManager\<close>: the two in-memory lists, and the initial load.
  \<open>pendingLoad = Some (sb, sg)\<close> says that the promise \<open>ready\<close> has not resolved yet:
  \<open>loadData\<close> is still waiting for the storage, which will answer \<open>sb\<close> for the key
  \<open>bookmarks\<close> and \<open>sg\<close> for \<open>bookmarkGroups\<close> (\<open>None\<close> when the key was never
  saved). \<open>pendingLoad = None\<close> says that \<open>ready\<close> has resolved.
\<close>

record BookmarkManager =
  bookmarks :: "Bookmark list"
  groups :: "BookmarkGroup list"
  pendingLoad :: "(Bookmark list option \<times> BookmarkGroup list option) option"

text \<open>\<open>priority ?? 0\<close>, for a group and for a bookmark.\<close>

definition groupPriority :: "BookmarkGroup \<Rightarrow> int" where
  "groupPriority g = (case g_priority g of None \<Rightarrow> 0 | Some p \<Rightarrow> p)"

definition bookmarkPriority :: "Bookmark \<Rightarrow> int" where
  "bookmarkPriority b = (case b_priority b of None \<Rightarrow> 0 | Some p \<Rightarrow> p)"

section \<open>Construction and the initial load\<close>

text \<open>The constructor leaves both lists empty and starts \<open>loadData\<close>.\<close>

definition newBookmarkManager ::
  "Bookmark list option \<Rightarrow> BookmarkGroup list option \<Rightarrow> BookmarkManager" where
  "newBookmarkManager storedBookmarks storedGroups =
     \<lparr>bookmarks = [], groups = [], pendingLoad = Some (storedBookmarks, storedGroups)\<rparr>"

text \<open>
  \<open>loadData\<close>, once the storage has answered: both lists are replaced by what was
  stored, the groups with their priority defaulted to 0.
\<close>

definition loadData ::
  "Bookmark list option \<Rightarrow> BookmarkGroup list option \<Rightarrow> BookmarkManager \<Rightarrow> BookmarkManager" where
  "loadData storedBookmarks storedGroups m =
     m\<lparr>bookmarks := (case storedBookmarks of None \<Rightarrow> [] | Some bs \<Rightarrow> bs),
       groups := (case storedGroups of None \<Rightarrow> []
                  | Some gs \<Rightarrow> map (\<lambda>g. g\<lparr>g_priority := Some (groupPriority g)\<rparr>) gs),
       pendingLoad := None\<rparr>"

text \<open>
  \<open>await this.ready\<close>: the caller goes on only after \<open>loadData\<close> has finished, so it
  sees the loaded lists. When the promise has resolved already, nothing happens.
\<close>

definition awaitReady :: "BookmarkManager \<Rightarrow> BookmarkManager" where
  "awaitReady m =
     (case pendingLoad m of
        None \<Rightarrow> m
      | Some (storedBookmarks, storedGroups) \<Rightarrow> loadData storedBookmarks storedGroups m)"

section \<open>Array helpers\<close>

text \<open>\<open>Array.prototype.findIndex\<close>: the first index whose element passes, or -1.\<close>

fun findIndex :: "('a \<Rightarrow> bool) \<Rightarrow> 'a list \<Rightarrow> int" where
  "findIndex P [] = - 1"
| "findIndex P (x # xs) =
     (if P x then 0 else (let i = findIndex P xs in if i = - 1 then - 1 else i + 1))"

text \<open>
  \<open>const x = xs.find(P); if (x) { mutate x }\<close>: the first element that passes is
  changed in place, the array keeps its order.
\<close>

fun updateFirst :: "('a \<Rightarrow> bool) \<Rightarrow> ('a \<Rightarrow> 'a) \<Rightarrow> 'a list \<Rightarrow> 'a list" where
  "updateFirst P f [] = []"
| "updateFirst P f (x # xs) = (if P x then f x # xs else x # updateFirst P f xs)"

text \<open>
  \<open>Array.prototype.sort\<close> with a comparator. The language requires the sort to be
  stable; for a comparator that is a total preorder a stable sort has one possible result,
  which this insertion sort computes: an element goes in front of the first element it
  does not compare greater than, and the elements are inserted from the right.
\<close>

fun insertSorted :: "('a \<Rightarrow> 'a \<Rightarrow> int) \<Rightarrow> 'a \<Rightarrow> 'a list \<Rightarrow> 'a list" where
  "insertSorted cmp x [] = [x]"
| "insertSorted cmp x (y # ys) =
     (if cmp x y \<le> 0 then x # y # ys else y # insertSorted cmp x ys)"

definition array_sort :: "('a \<Rightarrow> 'a \<Rightarrow> int) \<Rightarrow> 'a list \<Rightarrow> 'a list" where
  "array_sort cmp xs = foldr (insertSorted cmp) xs []"

section \<open>Ordering policy\<close>

text \<open>
  The comparator \<open>sortBookmarks\<close>, and the comparator the group sorts pass inline (the
  same text on groups): priority descending, then creation time ascending.
\<close>

definition sortBookmarks :: "Bookmark \<Rightarrow> Bookmark \<Rightarrow> int" where
  "sortBookmarks a b =
     (let pa = bookmarkPriority a; pb = bookmarkPriority b
      in if pa \<noteq> pb then pb - pa else b_created a - b_created b)"

definition sortGroups :: "BookmarkGroup \<Rightarrow> BookmarkGroup \<Rightarrow> int" where
  "sortGroups a b =
     (let pa = groupPriority a; pb = groupPriority b
      in if pa \<noteq> pb then pb - pa else g_created a - g_created b)"

section \<open>Group operations\<close>

text \<open>\<open>this.groups.reduce((max, g) => Math.max(max, g.priority ?? 0), 0)\<close>\<close>

definition maxPriority :: "BookmarkGroup list \<Rightarrow> int" where
  "maxPriority gs = foldl (\<lambda>mx g. max mx (groupPriority g)) 0 gs"

text \<open>
  \<open>createGroup\<close>. The fresh id (\<open>generateId()\<close>) and the creation time
  (\<open>new Date()\<close>) are parameters. The result is the created group, or \<open>None\<close> for
  \<open>undefined\<close>. The function does not wait for \<open>ready\<close>.
\<close>

definition createGroup ::
  "string \<Rightarrow> bool \<Rightarrow> string option \<Rightarrow> string \<Rightarrow> int \<Rightarrow> BookmarkManager
     \<Rightarrow> BookmarkGroup option \<times> BookmarkManager" where
  "createGroup groupName isDefault parentId newId now m =
     (if groupName = [] then (None, m)
      else
        let siblings = filter (\<lambda>g. g_parentId g = parentId) (groups m) in
        if list_ex (\<lambda>g. g_name g = groupName) siblings then (None, m)
        else
          let gs = (if isDefault then map (\<lambda>g. g\<lparr>g_isDefault := False\<rparr>) (groups m)
                    else groups m);
              newGroup = \<lparr>g_id = newId, g_name = groupName, g_isDefault = isDefault,
                          g_created = now, g_parentId = parentId,
                          g_priority = Some (maxPriority gs + 1)\<rparr>
          in (Some newGroup, m\<lparr>groups := gs @ [newGroup]\<rparr>))"

text \<open>
  \<open>setGroupAsDefault\<close>: every flag is cleared first, then the first group with the id
  gets the flag and a priority above every group's.
\<close>

definition setGroupAsDefault :: "string \<Rightarrow> BookmarkManager \<Rightarrow> BookmarkManager" where
  "setGroupAsDefault groupId m0 =
     (let m = awaitReady m0;
          cleared = map (\<lambda>g. g\<lparr>g_isDefault := False\<rparr>) (groups m)
      in case find (\<lambda>g. g_id g = groupId) cleared of
           None \<Rightarrow> m\<lparr>groups := cleared\<rparr>
         | Some _ \<Rightarrow>
             let flagged = updateFirst (\<lambda>g. g_id g = groupId)
                             (\<lambda>g. g\<lparr>g_isDefault := True\<rparr>) cleared;
                 top = maxPriority flagged + 1
             in m\<lparr>groups := updateFirst (\<lambda>g. g_id g = groupId)
                                (\<lambda>g. g\<lparr>g_priority := Some top\<rparr>) flagged\<rparr>)"

text \<open>
  \<open>moveGroupToParent\<close>. The moving group is filtered out of \<open>this.groups\<close> before the
  name check; the early return of the name check leaves that filtered list in place.
  \<open>insertBeforeGroupId\<close> is tested for truthiness, so the empty string counts as absent.
  \<open>splice(insertIndex, 0, movingGroup)\<close> is \<open>take\<close>, the group, \<open>drop\<close>.
\<close>

definition renumber :: "BookmarkGroup list \<Rightarrow> BookmarkGroup list" where
  "renumber siblings =
     map (\<lambda>(i, g). g\<lparr>g_priority := Some (int (length siblings) - int i)\<rparr>)
       (enumerate 0 siblings)"

definition moveGroupToParent ::
  "string \<Rightarrow> string option \<Rightarrow> string option \<Rightarrow> BookmarkManager \<Rightarrow> BookmarkManager" where
  "moveGroupToParent groupId newParentId insertBeforeGroupId m0 =
     (let m = awaitReady m0 in
      case find (\<lambda>g. g_id g = groupId) (groups m) of
        None \<Rightarrow> m
      | Some movingGroup \<Rightarrow>
          let gs = filter (\<lambda>g. g_id g \<noteq> groupId) (groups m);
              targetSiblings = filter (\<lambda>g. g_parentId g = newParentId \<and> g_id g \<noteq> groupId) gs
          in
          if list_ex (\<lambda>g. g_name g = g_name movingGroup) targetSiblings
          then m\<lparr>groups := gs\<rparr>
          else
            let moved = movingGroup\<lparr>g_parentId := newParentId\<rparr>;
                siblings = filter (\<lambda>g. g_parentId g = newParentId) gs;
                insertIndex =
                  (case insertBeforeGroupId of
                     None \<Rightarrow> 0
                   | Some before \<Rightarrow>
                       if before = [] then 0
                       else (let idx = findIndex (\<lambda>g. g_id g = before) siblings
                             in if idx = - 1 then 0 else nat idx));
                spliced = take insertIndex siblings @ [moved] @ drop insertIndex siblings
            in m\<lparr>groups := filter (\<lambda>g. g_parentId g \<noteq> newParentId) gs @ renumber spliced\<rparr>)"

section \<open>Sequences of group calls\<close>

text \<open>
  A call of \<open>createGroup\<close> or of \<open>setGroupAsDefault\<close> with its arguments, and a
  sequence of such calls, each awaited before the next one is made. \<open>createGroup\<close> does
  not wait for \<open>ready\<close>, but it returns only after \<open>saveData\<close>, and a load that was
  pending when it was called has finished by then and has replaced both lists: the state
  an awaited \<open>createGroup\<close> leaves is the state after the load. On a manager whose load
  has finished (\<open>pendingLoad = None\<close>) nothing is pending, and every call leaves it so.
\<close>

datatype groupCall =
    CreateGroup string bool "string option" string int
  | SetGroupAsDefault string

fun applyCall :: "BookmarkManager \<Rightarrow> groupCall \<Rightarrow> BookmarkManager" where
  "applyCall m (CreateGroup groupName isDefault parentId newId now) =
     awaitReady (snd (createGroup groupName isDefault parentId newId now m))"
| "applyCall m (SetGroupAsDefault groupId) = setGroupAsDefault groupId m"

definition applyCalls :: "BookmarkManager \<Rightarrow> groupCall list \<Rightarrow> BookmarkManager" where
  "applyCalls m calls = foldl applyCall m calls"

text \<open>
  A call requests a default group when it is a \<open>createGroup\<close> with \<open>isDefault = true\<close>
  or a \<open>setGroupAsDefault\<close>. The request is accepted when the \<open>createGroup\<close> returns a
  group, or when a group has the id given to \<open>setGroupAsDefault\<close>.
\<close>

fun requestsDefault :: "groupCall \<Rightarrow> bool" where
  "requestsDefault (CreateGroup groupName isDefault parentId newId now) = isDefault"
| "requestsDefault (SetGroupAsDefault groupId) = True"

fun accepted :: "BookmarkManager \<Rightarrow> groupCall \<Rightarrow> bool" where
  "accepted m (CreateGroup groupName isDefault parentId newId now) =
     (isDefault \<and> fst (createGroup groupName isDefault parentId newId now m) \<noteq> None)"
| "accepted m (SetGroupAsDefault groupId) =
     list_ex (\<lambda>g. g_id g = groupId) (groups (awaitReady m))"

fun anyAccepted :: "BookmarkManager \<Rightarrow> groupCall list \<Rightarrow> bool" where
  "anyAccepted m [] = False"
| "anyAccepted m (c # calls) = (accepted m c \<or> anyAccepted (applyCall m c) calls)"

text \<open>
  Every \<open>setGroupAsDefault\<close> of the sequence names a group that is in the collection
  when the call is made.
\<close>

fun targetKnown :: "BookmarkManager \<Rightarrow> groupCall \<Rightarrow> bool" where
  "targetKnown m (CreateGroup groupName isDefault parentId newId now) = True"
| "targetKnown m (SetGroupAsDefault groupId) =
     list_ex (\<lambda>g. g_id g = groupId) (groups (awaitReady m))"

fun targetsKnown :: "BookmarkManager \<Rightarrow> groupCall list \<Rightarrow> bool" where
  "targetsKnown m [] = True"
| "targetsKnown m (c # calls) = (targetKnown m c \<and> targetsKnown (applyCall m c) calls)"

text \<open>The number of groups whose \<open>isDefault\<close> is true.\<close>

definition defaultCount :: "BookmarkManager \<Rightarrow> nat" where
  "defaultCount m = length (filter g_isDefault (groups m))"

section \<open>Bookmark operations\<close>

text \<open>\<open>groupId ?? '__root__'\<close>: the key of a bookmark's sibling bucket.\<close>

definition bucketKey :: "Bookmark \<Rightarrow> string" where
  "bucketKey b = (case b_groupId b of None \<Rightarrow> ''__root__'' | Some g \<Rightarrow> g)"

text \<open>
  \<open>moveBookmarkRelative\<close>. \<open>siblings\<close> is an array of references to the bookmark
  objects of \<open>this.bookmarks\<close>: here a reference is the position of the object in
  \<open>this.bookmarks\<close>, paired with the object as it is when the array is built. The two
  assignments \<open>a.priority = pb; b.priority = pa\<close> write through the references, one
  after the other. The result is the returned boolean and the state.
\<close>

definition moveBookmarkRelative ::
  "string \<Rightarrow> int \<Rightarrow> BookmarkManager \<Rightarrow> bool \<times> BookmarkManager" where
  "moveBookmarkRelative bookmarkId delta m0 =
     (let m = awaitReady m0 in
      case find (\<lambda>b. b_id b = bookmarkId) (bookmarks m) of
        None \<Rightarrow> (False, m)
      | Some bm \<Rightarrow>
          let key = bucketKey bm;
              siblings = array_sort (\<lambda>x y. sortBookmarks (snd x) (snd y))
                           (filter (\<lambda>x. bucketKey (snd x) = key) (enumerate 0 (bookmarks m)));
              idx = findIndex (\<lambda>x. b_id (snd x) = bookmarkId) siblings
          in
          if idx = - 1 then (False, m)
          else
            let target = (if delta = 1 then idx - 1 else idx + 1) in
            if target < 0 \<or> target \<ge> int (length siblings) then (False, m)
            else
              let a = fst (siblings ! nat idx);
                  b = fst (siblings ! nat target);
                  pa = bookmarkPriority (bookmarks m ! a);
                  pb = bookmarkPriority (bookmarks m ! b);
                  bs1 = (bookmarks m)[a := (bookmarks m ! a)\<lparr>b_priority := Some pb\<rparr>];
                  bs2 = bs1[b := (bs1 ! b)\<lparr>b_priority := Some pa\<rparr>]
              in (True, m\<lparr>bookmarks := bs2\<rparr>))"

text \<open>
  A sibling bucket in the order of the ordering policy: the bookmarks with the bucket's
  key, sorted with \<open>sortBookmarks\<close>. This is the \<open>siblings\<close> array of
  \<open>moveBookmarkRelative\<close>, as values.
\<close>

definition sortedSiblings :: "Bookmark list \<Rightarrow> string \<Rightarrow> Bookmark list" where
  "sortedSiblings bs key = array_sort sortBookmarks (filter (\<lambda>b. bucketKey b = key) bs)"

section \<open>Sample values\<close>

text \<open>A bookmark in file \<open>a.ts\<close> at line 0, column 0, for the concrete instances below.\<close>

definition sampleBookmark :: "string \<Rightarrow> int \<Rightarrow> string option \<Rightarrow> int option \<Rightarrow> Bookmark" where
  "sampleBookmark ident created groupId priority =
     \<lparr>b_id = ident, b_label = ident, b_file = ''a.ts'', b_line = 0, b_column = 0,
      b_description = None, b_created = created, b_groupId = groupId,
      b_priority = priority\<rparr>"

section \<open>Removing a group\<close>

text \<open>
  \<open>removeGroup\<close> calls itself for every child group, and nothing in it bounds the
  depth: on a group that is its own ancestor the recursion does not end. The first
  argument bounds the depth of the recursion; \<open>None\<close> says that the call did not return
  within that depth. \<open>removeSubGroups\<close> is the \<open>for\<close> loop over \<open>subGroups\<close>, the
  children as they were filtered before the loop. The function does not wait for
  \<open>ready\<close>.
\<close>

fun removeGroup :: "nat \<Rightarrow> string \<Rightarrow> BookmarkManager \<Rightarrow> BookmarkManager option"
  and removeSubGroups ::
    "nat \<Rightarrow> BookmarkGroup list \<Rightarrow> BookmarkManager \<Rightarrow> BookmarkManager option" where
  "removeGroup 0 groupId m = None"
| "removeGroup (Suc depth) groupId m =
     (case find (\<lambda>g. g_id g = groupId) (groups m) of
        None \<Rightarrow> Some m
      | Some grp \<Rightarrow>
          (case removeSubGroups depth
                  (filter (\<lambda>g. g_parentId g = Some groupId) (groups m)) m of
             None \<Rightarrow> None
           | Some m1 \<Rightarrow>
               Some (m1\<lparr>bookmarks :=
                          map (\<lambda>b. if b_groupId b = Some groupId
                                    then b\<lparr>b_groupId := g_parentId grp\<rparr> else b)
                            (bookmarks m1),
                        groups := filter (\<lambda>g. g_id g \<noteq> groupId) (groups m1)\<rparr>)))"
| "removeSubGroups depth [] m = Some m"
| "removeSubGroups depth (subGroup # rest) m =
     (case removeGroup depth (g_id subGroup) m of
        None \<Rightarrow> None
      | Some m1 \<Rightarrow> removeSubGroups depth rest m1)"

text \<open>
  The invariants of the group collection that the data model states: ids are unique, and
  the parent links form a forest. \<open>reachesRoot n gs x\<close> walks up the parent links from
  id \<open>x\<close> and says whether the walk ends, at a root-level group or at an id that no group
  has, within \<open>n\<close> steps; in a forest every walk ends within one step more than there are
  groups.
\<close>

fun reachesRoot :: "nat \<Rightarrow> BookmarkGroup list \<Rightarrow> string \<Rightarrow> bool" where
  "reachesRoot 0 gs x = False"
| "reachesRoot (Suc n) gs x =
     (case find (\<lambda>g. g_id g = x) gs of
        None \<Rightarrow> True
      | Some g \<Rightarrow> (case g_parentId g of None \<Rightarrow> True | Some p \<Rightarrow> reachesRoot n gs p))"

definition forest :: "BookmarkGroup list \<Rightarrow> bool" where
  "forest gs =
     (distinct (map g_id gs) \<and> list_all (\<lambda>g. reachesRoot (Suc (length gs)) gs (g_id g)) gs)"

text \<open>
  The parent links as a relation from a group's id to its parent's id, and the ids below
  a group: the group's own id and the ids of its descendants.
\<close>

definition parentRel :: "BookmarkGroup list \<Rightarrow> (string \<times> string) set" where
  "parentRel gs = {(c, p). \<exists>g \<in> set gs. g_id g = c \<and> g_parentId g = Some p}"

definition subtreeIds :: "BookmarkGroup list \<Rightarrow> string \<Rightarrow> string set" where
  "subtreeIds gs x = {y. (y, x) \<in> (parentRel gs)\<^sup>*}"

text \<open>
  The effect of a removal, for a set \<open>X\<close> of removed ids: the groups without those
  whose id is in \<open>X\<close>, and the bookmarks with every reference into \<open>X\<close> replaced by
  \<open>t\<close>.
\<close>

definition withoutGroups :: "string set \<Rightarrow> BookmarkGroup list \<Rightarrow> BookmarkGroup list" where
  "withoutGroups X gs = filter (\<lambda>g. g_id g \<notin> X) gs"

definition reassigned :: "string set \<Rightarrow> string option \<Rightarrow> Bookmark list \<Rightarrow> Bookmark list" where
  "reassigned X t bs =
     map (\<lambda>b. case b_groupId b of
                None \<Rightarrow> b
              | Some x \<Rightarrow> if x \<in> X then b\<lparr>b_groupId := t\<rparr> else b) bs"

section \<open>Claims\<close>

text \<open>
  C1 (the code at an input where the claim fails). The claim: a
  \<open>moveGroupToParent\<close> that meets a group of the same name among the new siblings is a
  no-op on the group list. Here group \<open>b\<close>, named \<open>Work\<close> under parent \<open>a\<close>, is
  moved to the root, where group \<open>a\<close> is named \<open>Work\<close> too: the move is refused, and the
  group list afterwards holds group \<open>a\<close> only. Group \<open>b\<close> is lost.
\<close>

theorem moveGroupToParent_collision_drops_group:
  "groups (moveGroupToParent ''b'' None None
     \<lparr>bookmarks = [],
      groups = [\<lparr>g_id = ''a'', g_name = ''Work'', g_isDefault = False, g_created = 1,
                  g_parentId = None, g_priority = Some 1\<rparr>,
                \<lparr>g_id = ''b'', g_name = ''Work'', g_isDefault = False, g_created = 2,
                  g_parentId = Some ''a'', g_priority = Some 2\<rparr>],
      pendingLoad = None\<rparr>)
   = [\<lparr>g_id = ''a'', g_name = ''Work'', g_isDefault = False, g_created = 1,
        g_parentId = None, g_priority = Some 1\<rparr>]"
  by (simp add: moveGroupToParent_def awaitReady_def)

text \<open>
  C8, as the claim states it, fails at the empty name: \<open>createGroup\<close> takes an empty
  name for a cancelled input and returns \<open>undefined\<close>, also when the only group of
  that name sits under a different parent. (A group can carry the empty name: the rename
  command trims the input after testing it.)
\<close>

theorem createGroup_empty_name_counterexample:
  "createGroup [] False None ''n1'' 9
     \<lparr>bookmarks = [],
      groups = [\<lparr>g_id = ''a'', g_name = [], g_isDefault = False, g_created = 1,
                  g_parentId = Some ''p'', g_priority = Some 1\<rparr>],
      pendingLoad = None\<rparr>
   = (None,
      \<lparr>bookmarks = [],
       groups = [\<lparr>g_id = ''a'', g_name = [], g_isDefault = False, g_created = 1,
                   g_parentId = Some ''p'', g_priority = Some 1\<rparr>],
       pendingLoad = None\<rparr>)"
  by (simp add: createGroup_def)

text \<open>
  C8 (amended). A \<open>createGroup\<close> whose name some group with the same \<open>parentId\<close>
  (absent included) already has returns no group and leaves the manager as it was. A
  \<open>createGroup\<close> with a non-empty name that only groups under a different parent have
  returns the new group and appends it to the group list (whose \<open>isDefault\<close> flags are
  cleared first when the new group is created as the default).
\<close>

theorem createGroup_sibling_names:
  "((\<exists>g \<in> set (groups m). g_parentId g = parentId \<and> g_name g = groupName) \<longrightarrow>
      createGroup groupName isDefault parentId newId now m = (None, m))
   \<and> (groupName \<noteq> []
        \<and> (\<exists>g \<in> set (groups m). g_name g = groupName \<and> g_parentId g \<noteq> parentId)
        \<and> (\<forall>g \<in> set (groups m). g_name g = groupName \<longrightarrow> g_parentId g \<noteq> parentId) \<longrightarrow>
      (let gs = (if isDefault then map (\<lambda>g. g\<lparr>g_isDefault := False\<rparr>) (groups m)
                 else groups m);
           newGroup = \<lparr>g_id = newId, g_name = groupName, g_isDefault = isDefault,
                       g_created = now, g_parentId = parentId,
                       g_priority = Some (maxPriority gs + 1)\<rparr>
       in createGroup groupName isDefault parentId newId now m
            = (Some newGroup, m\<lparr>groups := gs @ [newGroup]\<rparr>)))"
proof (intro conjI impI)
  assume "\<exists>g \<in> set (groups m). g_parentId g = parentId \<and> g_name g = groupName"
  then have "list_ex (\<lambda>g. g_name g = groupName)
               (filter (\<lambda>g. g_parentId g = parentId) (groups m))"
    by (auto simp: list_ex_iff)
  then show "createGroup groupName isDefault parentId newId now m = (None, m)"
    by (simp add: createGroup_def)
next
  assume a: "groupName \<noteq> []
        \<and> (\<exists>g \<in> set (groups m). g_name g = groupName \<and> g_parentId g \<noteq> parentId)
        \<and> (\<forall>g \<in> set (groups m). g_name g = groupName \<longrightarrow> g_parentId g \<noteq> parentId)"
  then have "\<not> list_ex (\<lambda>g. g_name g = groupName)
               (filter (\<lambda>g. g_parentId g = parentId) (groups m))"
    by (auto simp: list_ex_iff)
  with a show "let gs = (if isDefault then map (\<lambda>g. g\<lparr>g_isDefault := False\<rparr>) (groups m)
                 else groups m);
           newGroup = \<lparr>g_id = newId, g_name = groupName, g_isDefault = isDefault,
                       g_created = now, g_parentId = parentId,
                       g_priority = Some (maxPriority gs + 1)\<rparr>
       in createGroup groupName isDefault parentId newId now m
            = (Some newGroup, m\<lparr>groups := gs @ [newGroup]\<rparr>)"
    by (simp add: createGroup_def Let_def)
qed

theorem createGroup_sibling_names_witness:
  "createGroup ''Work'' False None ''n1'' 9
     \<lparr>bookmarks = [],
      groups = [\<lparr>g_id = ''a'', g_name = ''Work'', g_isDefault = True, g_created = 1,
                  g_parentId = None, g_priority = Some 1\<rparr>],
      pendingLoad = None\<rparr>
   = (None,
      \<lparr>bookmarks = [],
       groups = [\<lparr>g_id = ''a'', g_name = ''Work'', g_isDefault = True, g_created = 1,
                   g_parentId = None, g_priority = Some 1\<rparr>],
       pendingLoad = None\<rparr>)
   \<and> createGroup ''Work'' True (Some ''a'') ''n1'' 9
     \<lparr>bookmarks = [],
      groups = [\<lparr>g_id = ''a'', g_name = ''Work'', g_isDefault = True, g_created = 1,
                  g_parentId = None, g_priority = Some 1\<rparr>],
      pendingLoad = None\<rparr>
   = (Some \<lparr>g_id = ''n1'', g_name = ''Work'', g_isDefault = True, g_created = 9,
             g_parentId = Some ''a'', g_priority = Some 2\<rparr>,
      \<lparr>bookmarks = [],
       groups = [\<lparr>g_id = ''a'', g_name = ''Work'', g_isDefault = False, g_created = 1,
                   g_parentId = None, g_priority = Some 1\<rparr>,
                 \<lparr>g_id = ''n1'', g_name = ''Work'', g_isDefault = True, g_created = 9,
                   g_parentId = Some ''a'', g_priority = Some 2\<rparr>],
       pendingLoad = None\<rparr>)"
  using createGroup_sibling_names
    [of "\<lparr>bookmarks = [],
      groups = [\<lparr>g_id = ''a'', g_name = ''Work'', g_isDefault = True, g_created = 1,
                  g_parentId = None, g_priority = Some 1\<rparr>],
      pendingLoad = None\<rparr>" None "''Work''" False "''n1''" 9]
    createGroup_sibling_names
    [of "\<lparr>bookmarks = [],
      groups = [\<lparr>g_id = ''a'', g_name = ''Work'', g_isDefault = True, g_created = 1,
                  g_parentId = None, g_priority = Some 1\<rparr>],
      pendingLoad = None\<rparr>" "Some ''a''" "''Work''" True "''n1''" 9]
  by (simp add: maxPriority_def groupPriority_def Let_def)

subsection \<open>The default group\<close>

lemma filter_default_cleared:
  "filter g_isDefault (map (\<lambda>g. g\<lparr>g_isDefault := False\<rparr>) gs) = []"
  by (induction gs) auto

lemma filter_default_flag_first:
  "filter g_isDefault gs = [] \<Longrightarrow> find P gs \<noteq> None \<Longrightarrow>
   length (filter g_isDefault (updateFirst P (\<lambda>g. g\<lparr>g_isDefault := True\<rparr>) gs)) = 1"
  by (induction gs) (auto split: if_splits)

lemma filter_default_priority_first:
  "length (filter g_isDefault (updateFirst P (\<lambda>g. g\<lparr>g_priority := p\<rparr>) gs))
   = length (filter g_isDefault gs)"
  by (induction gs) auto

lemma setGroupAsDefault_count:
  "defaultCount (setGroupAsDefault groupId m) =
     (if find (\<lambda>g. g_id g = groupId) (groups (awaitReady m)) = None then 0 else 1)"
proof -
  let ?cl = "map (\<lambda>g. g\<lparr>g_isDefault := False\<rparr>) (groups (awaitReady m))"
  have f: "(find (\<lambda>g. g_id g = groupId) ?cl = None)
         = (find (\<lambda>g. g_id g = groupId) (groups (awaitReady m)) = None)"
    by (auto simp: find_None_iff)
  show ?thesis
  proof (cases "find (\<lambda>g. g_id g = groupId) ?cl")
    case None
    with f show ?thesis
      by (simp add: setGroupAsDefault_def defaultCount_def Let_def filter_default_cleared)
  next
    case (Some g)
    have "length (filter g_isDefault
            (updateFirst (\<lambda>g. g_id g = groupId) (\<lambda>g. g\<lparr>g_priority := p\<rparr>)
               (updateFirst (\<lambda>g. g_id g = groupId) (\<lambda>g. g\<lparr>g_isDefault := True\<rparr>) ?cl))) = 1" for p
      using filter_default_flag_first[OF filter_default_cleared, of "\<lambda>g. g_id g = groupId" "groups (awaitReady m)"]
        Some
      by (simp add: filter_default_priority_first)
    with Some f show ?thesis
      by (simp add: setGroupAsDefault_def defaultCount_def Let_def)
  qed
qed

lemma createGroup_count:
  "defaultCount (snd (createGroup groupName isDefault parentId newId now m)) =
     (if fst (createGroup groupName isDefault parentId newId now m) = None
      then defaultCount m else if isDefault then 1 else defaultCount m)"
  by (simp add: createGroup_def defaultCount_def Let_def filter_default_cleared)

lemma awaitReady_loaded: "pendingLoad m = None \<Longrightarrow> awaitReady m = m"
  by (simp add: awaitReady_def)

lemma pendingLoad_createGroup:
  "pendingLoad (snd (createGroup groupName isDefault parentId newId now m)) = pendingLoad m"
  by (simp add: createGroup_def Let_def)

lemma pendingLoad_setGroupAsDefault:
  "pendingLoad m = None \<Longrightarrow> pendingLoad (setGroupAsDefault groupId m) = None"
  by (simp add: setGroupAsDefault_def Let_def awaitReady_loaded split: option.splits)

lemma pendingLoad_applyCall: "pendingLoad m = None \<Longrightarrow> pendingLoad (applyCall m c) = None"
  by (cases c) (simp_all add: pendingLoad_createGroup awaitReady_loaded pendingLoad_setGroupAsDefault)

lemma applyCall_count:
  assumes "pendingLoad m = None" and "targetKnown m c"
  shows "defaultCount (applyCall m c) = (if accepted m c then 1 else defaultCount m)"
proof (cases c)
  case (CreateGroup groupName isDefault parentId newId now)
  have "awaitReady (snd (createGroup groupName isDefault parentId newId now m))
        = snd (createGroup groupName isDefault parentId newId now m)"
    using assms(1) by (simp add: awaitReady_loaded pendingLoad_createGroup)
  with CreateGroup show ?thesis by (auto simp: createGroup_count)
next
  case (SetGroupAsDefault groupId)
  with assms(2) have "find (\<lambda>g. g_id g = groupId) (groups (awaitReady m)) \<noteq> None"
    by (auto simp: find_None_iff list_ex_iff)
  with SetGroupAsDefault assms(2) show ?thesis by (simp add: setGroupAsDefault_count)
qed

lemma applyCall_at_most_one:
  assumes "pendingLoad m = None" and "defaultCount m \<le> 1"
  shows "defaultCount (applyCall m c) \<le> 1"
proof (cases c)
  case (CreateGroup groupName isDefault parentId newId now)
  have "awaitReady (snd (createGroup groupName isDefault parentId newId now m))
        = snd (createGroup groupName isDefault parentId newId now m)"
    using assms(1) by (simp add: awaitReady_loaded pendingLoad_createGroup)
  with CreateGroup assms(2) show ?thesis by (simp add: createGroup_count)
next
  case (SetGroupAsDefault groupId)
  then show ?thesis by (simp add: setGroupAsDefault_count)
qed

lemma applyCall_not_requested:
  assumes "pendingLoad m = None" and "\<not> requestsDefault c"
  shows "defaultCount (applyCall m c) = defaultCount m"
proof (cases c)
  case (CreateGroup groupName isDefault parentId newId now)
  have "awaitReady (snd (createGroup groupName isDefault parentId newId now m))
        = snd (createGroup groupName isDefault parentId newId now m)"
    using assms(1) by (simp add: awaitReady_loaded pendingLoad_createGroup)
  with CreateGroup assms(2) show ?thesis by (simp add: createGroup_count)
next
  case (SetGroupAsDefault groupId)
  with assms(2) show ?thesis by simp
qed

lemma applyCalls_count:
  "pendingLoad m = None \<Longrightarrow> targetsKnown m calls \<Longrightarrow>
   defaultCount (applyCalls m calls) = (if anyAccepted m calls then 1 else defaultCount m)"
  unfolding applyCalls_def
proof (induction calls arbitrary: m)
  case Nil then show ?case by simp
next
  case (Cons c calls)
  from Cons.prems have k: "targetKnown m c" and ks: "targetsKnown (applyCall m c) calls"
    by simp_all
  have p: "pendingLoad (applyCall m c) = None"
    using Cons.prems(1) by (rule pendingLoad_applyCall)
  have "defaultCount (foldl applyCall (applyCall m c) calls)
        = (if anyAccepted (applyCall m c) calls then 1 else defaultCount (applyCall m c))"
    using p ks by (rule Cons.IH)
  also have "defaultCount (applyCall m c) = (if accepted m c then 1 else defaultCount m)"
    using Cons.prems(1) k by (rule applyCall_count)
  finally show ?case by simp
qed

lemma applyCalls_at_most_one:
  "pendingLoad m = None \<Longrightarrow> defaultCount m \<le> 1 \<Longrightarrow> defaultCount (applyCalls m calls) \<le> 1"
  unfolding applyCalls_def
proof (induction calls arbitrary: m)
  case Nil then show ?case by simp
next
  case (Cons c calls)
  have p: "pendingLoad (applyCall m c) = None"
    using Cons.prems(1) by (rule pendingLoad_applyCall)
  have "defaultCount (applyCall m c) \<le> 1"
    using Cons.prems by (rule applyCall_at_most_one)
  with p have "defaultCount (foldl applyCall (applyCall m c) calls) \<le> 1"
    by (rule Cons.IH)
  then show ?case by simp
qed

lemma applyCalls_none_requested:
  "pendingLoad m = None \<Longrightarrow> \<forall>c \<in> set calls. \<not> requestsDefault c \<Longrightarrow>
   defaultCount (applyCalls m calls) = defaultCount m"
  unfolding applyCalls_def
proof (induction calls arbitrary: m)
  case Nil then show ?case by simp
next
  case (Cons c calls)
  have p: "pendingLoad (applyCall m c) = None"
    using Cons.prems(1) by (rule pendingLoad_applyCall)
  have e: "defaultCount (applyCall m c) = defaultCount m"
    using Cons.prems by (intro applyCall_not_requested) simp_all
  have "defaultCount (foldl applyCall (applyCall m c) calls) = defaultCount (applyCall m c)"
    using p Cons.prems(2) by (intro Cons.IH) simp_all
  with e show ?case by simp
qed

text \<open>
  C2, as the claim states it, fails: a request can be refused, by a guard of
  \<open>createGroup\<close>. On a loaded manager with no group, a \<open>createGroup(isDefault = true)\<close>
  with the empty name (a cancelled input) creates nothing; on a loaded manager whose only
  group is the root group \<open>Work\<close>, not a default, a \<open>createGroup(isDefault = true)\<close> of
  a second root group \<open>Work\<close> is refused for the name. In both the default was requested
  and afterwards no group has \<open>isDefault\<close>.
\<close>

theorem default_requested_none_set_counterexample:
  "defaultCount (applyCalls
      \<lparr>bookmarks = [], groups = [], pendingLoad = None\<rparr>
      [CreateGroup [] True None ''g1'' 1]) = 0
   \<and> defaultCount (applyCalls
      \<lparr>bookmarks = [],
        groups = [\<lparr>g_id = ''a'', g_name = ''Work'', g_isDefault = False, g_created = 1,
                    g_parentId = None, g_priority = Some 1\<rparr>],
        pendingLoad = None\<rparr>
      [CreateGroup ''Work'' True None ''g1'' 1]) = 0"
  by (simp add: applyCalls_def defaultCount_def createGroup_def awaitReady_def)

text \<open>
  C2 (amended). On a manager whose initial load has finished, take any sequence of
  awaited \<open>createGroup\<close> and \<open>setGroupAsDefault\<close> calls in which every
  \<open>setGroupAsDefault\<close> names a group that is in the collection when it is called. If
  at least one request of the sequence was accepted (a \<open>createGroup(isDefault = true)\<close>
  that returned a group, or a \<open>setGroupAsDefault\<close>), exactly one group has
  \<open>isDefault = true\<close> afterwards, whatever the flags were at the start and however many
  requests were refused after it; if none was accepted, the number of default groups is
  what it was at the start, so zero from a collection without a default group. In
  particular a sequence in which no call requests a default leaves the number as it was.
  And from a collection with at most one default group, at most one group has
  \<open>isDefault = true\<close> after any sequence of these calls.
\<close>

theorem default_group_invariant:
  "pendingLoad m = None \<longrightarrow>
     (targetsKnown m calls \<longrightarrow>
        defaultCount (applyCalls m calls) = (if anyAccepted m calls then 1 else defaultCount m))
     \<and> ((\<forall>c \<in> set calls. \<not> requestsDefault c) \<longrightarrow>
          defaultCount (applyCalls m calls) = defaultCount m)
     \<and> (defaultCount m \<le> 1 \<longrightarrow> defaultCount (applyCalls m calls) \<le> 1)"
proof (intro impI conjI)
  assume p: "pendingLoad m = None"
  {
    assume "targetsKnown m calls"
    with p show "defaultCount (applyCalls m calls)
                 = (if anyAccepted m calls then 1 else defaultCount m)"
      by (rule applyCalls_count)
  }
  {
    assume "\<forall>c \<in> set calls. \<not> requestsDefault c"
    with p show "defaultCount (applyCalls m calls) = defaultCount m"
      by (rule applyCalls_none_requested)
  }
  {
    assume "defaultCount m \<le> 1"
    with p show "defaultCount (applyCalls m calls) \<le> 1"
      by (rule applyCalls_at_most_one)
  }
qed

theorem default_group_invariant_witness:
  "targetsKnown
      \<lparr>bookmarks = [], groups = [], pendingLoad = None\<rparr>
      [CreateGroup ''Work'' True None ''g1'' 1,
         CreateGroup ''Work'' True None ''g2'' 2,
         CreateGroup ''Personal'' False None ''g3'' 3,
         SetGroupAsDefault ''g3'',
         CreateGroup [] True None ''g4'' 4]
   \<and> anyAccepted
      \<lparr>bookmarks = [], groups = [], pendingLoad = None\<rparr>
      [CreateGroup ''Work'' True None ''g1'' 1,
         CreateGroup ''Work'' True None ''g2'' 2,
         CreateGroup ''Personal'' False None ''g3'' 3,
         SetGroupAsDefault ''g3'',
         CreateGroup [] True None ''g4'' 4]
   \<and> defaultCount (applyCalls
      \<lparr>bookmarks = [], groups = [], pendingLoad = None\<rparr>
      [CreateGroup ''Work'' True None ''g1'' 1,
         CreateGroup ''Work'' True None ''g2'' 2,
         CreateGroup ''Personal'' False None ''g3'' 3,
         SetGroupAsDefault ''g3'',
         CreateGroup [] True None ''g4'' 4]) = 1
   \<and> map g_isDefault (groups (applyCalls
      \<lparr>bookmarks = [], groups = [], pendingLoad = None\<rparr>
      [CreateGroup ''Work'' True None ''g1'' 1,
         CreateGroup ''Work'' True None ''g2'' 2,
         CreateGroup ''Personal'' False None ''g3'' 3,
         SetGroupAsDefault ''g3'',
         CreateGroup [] True None ''g4'' 4])) = [False, True]
   \<and> defaultCount (applyCalls
      \<lparr>bookmarks = [], groups = [], pendingLoad = None\<rparr>
      [CreateGroup ''Work'' False None ''g1'' 1]) = 0"
proof -
  let ?m = "\<lparr>bookmarks = [], groups = [], pendingLoad = None\<rparr>"
  let ?calls = "[CreateGroup ''Work'' True None ''g1'' 1,
         CreateGroup ''Work'' True None ''g2'' 2,
         CreateGroup ''Personal'' False None ''g3'' 3,
         SetGroupAsDefault ''g3'',
         CreateGroup [] True None ''g4'' 4]"
  have ev: "targetsKnown ?m ?calls \<and> anyAccepted ?m ?calls
            \<and> map g_isDefault (groups (applyCalls ?m ?calls)) = [False, True]"
    by (simp add: applyCalls_def createGroup_def setGroupAsDefault_def awaitReady_def
        maxPriority_def groupPriority_def Let_def)
  have one: "defaultCount (applyCalls ?m ?calls) = 1"
    using default_group_invariant [where m = ?m and calls = ?calls] ev by simp
  have zero: "defaultCount (applyCalls ?m [CreateGroup ''Work'' False None ''g1'' 1]) = 0"
    using default_group_invariant
      [where m = ?m and calls = "[CreateGroup ''Work'' False None ''g1'' 1]"]
    by (simp add: defaultCount_def)
  from ev one zero show ?thesis by simp
qed

subsection \<open>Moving a group to a new parent\<close>

lemma findIndex_range: "- 1 \<le> findIndex P xs \<and> findIndex P xs < int (length xs)"
  by (induction xs) (auto simp: Let_def)

lemma findIndex_none: "(findIndex P xs = - 1) = (\<forall>x \<in> set xs. \<not> P x)"
proof (induction xs)
  case Nil then show ?case by simp
next
  case (Cons x xs)
  have "- 1 \<le> findIndex P xs" using findIndex_range[of P xs] by simp
  with Cons show ?case by (auto simp: Let_def)
qed

lemma findIndex_found:
  "findIndex P xs \<noteq> - 1 \<Longrightarrow>
     nat (findIndex P xs) < length xs \<and> P (xs ! nat (findIndex P xs))
     \<and> (\<forall>j < nat (findIndex P xs). \<not> P (xs ! j))"
proof (induction xs)
  case Nil then show ?case by simp
next
  case (Cons x xs)
  show ?case
  proof (cases "P x")
    case True then show ?thesis by simp
  next
    case False
    with Cons.prems have ne: "findIndex P xs \<noteq> - 1" by (auto simp: Let_def split: if_splits)
    then have ge: "0 \<le> findIndex P xs" using findIndex_range[of P xs] by arith
    from False ne have eq: "findIndex P (x # xs) = findIndex P xs + 1" by (simp add: Let_def)
    from ge have n: "nat (findIndex P xs + 1) = Suc (nat (findIndex P xs))" by simp
    from Cons.IH[OF ne] False show ?thesis
      unfolding eq n by (auto simp: less_Suc_eq_0_disj)
  qed
qed

lemma length_renumber: "length (renumber xs) = length xs"
  by (simp add: renumber_def)

lemma renumber_nth:
  "i < length xs \<Longrightarrow> renumber xs ! i = (xs ! i)\<lparr>g_priority := Some (int (length xs) - int i)\<rparr>"
  by (simp add: renumber_def nth_enumerate_eq)

lemma renumber_forget:
  "map (\<lambda>g. g\<lparr>g_priority := None\<rparr>) (renumber xs) = map (\<lambda>g. g\<lparr>g_priority := None\<rparr>) xs"
  by (rule nth_equalityI) (simp_all add: renumber_nth length_renumber)

lemma renumber_parentId: "map g_parentId (renumber xs) = map g_parentId xs"
  by (rule nth_equalityI) (simp_all add: renumber_nth length_renumber)

lemma renumber_id: "map g_id (renumber xs) = map g_id xs"
  by (rule nth_equalityI) (simp_all add: renumber_nth length_renumber)

lemma filter_all_pass: "\<forall>x \<in> set xs. P x \<Longrightarrow> filter P xs = xs"
  by (induction xs) auto

lemma renumber_all_parent:
  "\<forall>g \<in> set xs. g_parentId g = p \<Longrightarrow> \<forall>g \<in> set (renumber xs). g_parentId g = p"
proof -
  assume a: "\<forall>g \<in> set xs. g_parentId g = p"
  have "set (map g_parentId (renumber xs)) = set (map g_parentId xs)"
    by (simp only: renumber_parentId)
  with a show ?thesis by (metis (no_types, lifting) image_iff list.set_map)
qed

lemma moveGroupToParent_success:
  assumes found: "find (\<lambda>g. g_id g = groupId) (groups (awaitReady m)) = Some movingGroup"
    and free: "\<not> (\<exists>g \<in> set (groups (awaitReady m)).
                 g_id g \<noteq> groupId \<and> g_parentId g = newParentId \<and> g_name g = g_name movingGroup)"
  shows "\<exists>k. k \<le> length (filter (\<lambda>g. g_parentId g = newParentId \<and> g_id g \<noteq> groupId) (groups (awaitReady m)))
    \<and> k = (case insertBeforeGroupId of None \<Rightarrow> 0
           | Some before \<Rightarrow> if before = [] then 0
              else let idx = findIndex (\<lambda>g. g_id g = before)
                     (filter (\<lambda>g. g_parentId g = newParentId \<and> g_id g \<noteq> groupId) (groups (awaitReady m)))
                   in if idx = - 1 then 0 else nat idx)
    \<and> filter (\<lambda>g. g_parentId g = newParentId)
        (groups (moveGroupToParent groupId newParentId insertBeforeGroupId m))
      = renumber (take k (filter (\<lambda>g. g_parentId g = newParentId \<and> g_id g \<noteq> groupId) (groups (awaitReady m)))
           @ [movingGroup\<lparr>g_parentId := newParentId\<rparr>]
           @ drop k (filter (\<lambda>g. g_parentId g = newParentId \<and> g_id g \<noteq> groupId) (groups (awaitReady m))))"
proof -
  let ?gs = "filter (\<lambda>g. g_id g \<noteq> groupId) (groups (awaitReady m))"
  let ?old = "filter (\<lambda>g. g_parentId g = newParentId \<and> g_id g \<noteq> groupId) (groups (awaitReady m))"
  let ?k = "(case insertBeforeGroupId of None \<Rightarrow> 0
           | Some before \<Rightarrow> if before = [] then 0
              else let idx = findIndex (\<lambda>g. g_id g = before) ?old
                   in if idx = - 1 then 0 else nat idx)"
  let ?sp = "take ?k ?old @ [movingGroup\<lparr>g_parentId := newParentId\<rparr>] @ drop ?k ?old"
  have sib: "filter (\<lambda>g. g_parentId g = newParentId) ?gs = ?old"
    by (simp add: conj_commute)
  have ts: "filter (\<lambda>g. g_parentId g = newParentId \<and> g_id g \<noteq> groupId) ?gs = ?old"
    by (auto intro: filter_cong)
  from free have nocol: "\<not> list_ex (\<lambda>g. g_name g = g_name movingGroup) ?old"
    by (auto simp: list_ex_iff)
  have res: "groups (moveGroupToParent groupId newParentId insertBeforeGroupId m)
      = filter (\<lambda>g. g_parentId g \<noteq> newParentId) ?gs @ renumber ?sp"
    using found nocol
    by (simp add: moveGroupToParent_def Let_def sib ts del: filter_filter)
  have allp: "\<forall>g \<in> set ?sp. g_parentId g = newParentId"
    by (auto dest: in_set_takeD in_set_dropD)
  have "filter (\<lambda>g. g_parentId g = newParentId) (renumber ?sp) = renumber ?sp"
    by (rule filter_all_pass) (rule renumber_all_parent[OF allp])
  then have S: "filter (\<lambda>g. g_parentId g = newParentId)
        (groups (moveGroupToParent groupId newParentId insertBeforeGroupId m)) = renumber ?sp"
    unfolding res by simp
  have k: "?k \<le> length ?old"
  proof (cases insertBeforeGroupId)
    case None then show ?thesis by simp
  next
    case (Some before)
    show ?thesis
      using findIndex_found[of "\<lambda>g. g_id g = before" ?old] Some
      by (auto simp: Let_def)
  qed
  from S k show ?thesis by blast
qed


lemma splice_nth:
  assumes "k \<le> length xs"
  shows "(take k xs @ [x] @ drop k xs) ! k = x"
    and "j < k \<Longrightarrow> (take k xs @ [x] @ drop k xs) ! j = xs ! j"
    and "k < j \<Longrightarrow> j \<le> length xs \<Longrightarrow> (take k xs @ [x] @ drop k xs) ! j = xs ! (j - 1)"
  using assms by (auto simp: nth_append min_def nth_Cons')

lemma filter_forget_cong:
  "map (\<lambda>g. g\<lparr>g_priority := None\<rparr>) xs = map (\<lambda>g. g\<lparr>g_priority := None\<rparr>) ys \<Longrightarrow>
   map (\<lambda>g. g\<lparr>g_priority := None\<rparr>) (filter (\<lambda>g. g_id g \<noteq> i) xs)
   = map (\<lambda>g. g\<lparr>g_priority := None\<rparr>) (filter (\<lambda>g. g_id g \<noteq> i) ys)"
proof (induction xs arbitrary: ys)
  case Nil then show ?case by simp
next
  case (Cons x xs)
  then obtain y ys' where ys: "ys = y # ys'" by (cases ys) auto
  with Cons.prems have h: "x\<lparr>g_priority := None\<rparr> = y\<lparr>g_priority := None\<rparr>"
    and t: "map (\<lambda>g. g\<lparr>g_priority := None\<rparr>) xs = map (\<lambda>g. g\<lparr>g_priority := None\<rparr>) ys'"
    by simp_all
  from h have "g_id (x\<lparr>g_priority := None\<rparr>) = g_id (y\<lparr>g_priority := None\<rparr>)" by simp
  then have "g_id x = g_id y" by simp
  with Cons.IH[OF t] h ys show ?case by simp
qed

text \<open>
  What a successful \<open>moveGroupToParent\<close> does (a group has the id and no other group
  under the new parent has the moving group's name). Let \<open>old\<close> be the other groups
  under the new parent, in the order of the group list before the call, and \<open>S\<close> the
  groups under the new parent in the order of the group list after it. Then \<open>S\<close> is one
  longer than \<open>old\<close>; the priorities in \<open>S\<close> are \<open>count\<close>, \<open>count - 1\<close>, ..., 1 from
  front to back; without the moved group and up to priority, \<open>S\<close> is \<open>old\<close>; and the
  moved group, with its new parent, stands once in \<open>S\<close>: directly before the first
  sibling with id \<open>insertBeforeGroupId\<close> when that id is given (non-empty) and a target
  sibling has it, and first otherwise. The order kept is the order of the flat group
  list: the siblings are not sorted by the ordering policy before the splice.
\<close>

lemma moveGroupToParent_splices_list_order:
  fixes m :: BookmarkManager
    and groupId :: string
    and newParentId insertBeforeGroupId :: "string option"
  defines "old \<equiv> filter (\<lambda>g. g_parentId g = newParentId \<and> g_id g \<noteq> groupId)
                    (groups (awaitReady m))"
    and "S \<equiv> filter (\<lambda>g. g_parentId g = newParentId)
                (groups (moveGroupToParent groupId newParentId insertBeforeGroupId m))"
  assumes found: "find (\<lambda>g. g_id g = groupId) (groups (awaitReady m)) = Some movingGroup"
    and free: "\<not> (\<exists>g \<in> set (groups (awaitReady m)).
                 g_id g \<noteq> groupId \<and> g_parentId g = newParentId \<and> g_name g = g_name movingGroup)"
  shows "length S = length old + 1
    \<and> map g_priority S = map (\<lambda>i. Some (int (length S) - int i)) [0..<length S]
    \<and> map (\<lambda>g. g\<lparr>g_priority := None\<rparr>) (filter (\<lambda>g. g_id g \<noteq> groupId) S)
        = map (\<lambda>g. g\<lparr>g_priority := None\<rparr>) old
    \<and> (\<exists>k < length S.
          (S ! k)\<lparr>g_priority := None\<rparr> = movingGroup\<lparr>g_parentId := newParentId, g_priority := None\<rparr>
          \<and> (\<forall>j < length S. j \<noteq> k \<longrightarrow> g_id (S ! j) \<noteq> groupId)
          \<and> (case insertBeforeGroupId of
                None \<Rightarrow> k = 0
              | Some before \<Rightarrow>
                  if before \<noteq> [] \<and> (\<exists>g \<in> set old. g_id g = before)
                  then Suc k < length S \<and> g_id (S ! Suc k) = before
                       \<and> (\<forall>j < k. g_id (S ! j) \<noteq> before)
                  else k = 0))"
proof -
  let ?moved = "movingGroup\<lparr>g_parentId := newParentId\<rparr>"
  from moveGroupToParent_success[OF found free, of insertBeforeGroupId]
  obtain k where k: "k \<le> length old"
    and kdef: "k = (case insertBeforeGroupId of None \<Rightarrow> 0
           | Some before \<Rightarrow> if before = [] then 0
              else let idx = findIndex (\<lambda>g. g_id g = before) old
                   in if idx = - 1 then 0 else nat idx)"
    and S: "S = renumber (take k old @ [?moved] @ drop k old)"
    unfolding old_def S_def by blast
  let ?sp = "take k old @ [?moved] @ drop k old"
  have len: "length S = length old + 1" using k by (simp add: S length_renumber)
  have lsp: "length ?sp = length old + 1" using k by simp
  have nth: "S ! j = (?sp ! j)\<lparr>g_priority := Some (int (length S) - int j)\<rparr>"
    if "j < length S" for j
    using that unfolding S by (simp add: renumber_nth length_renumber)
  have prio: "map g_priority S = map (\<lambda>i. Some (int (length S) - int i)) [0..<length S]"
    by (rule nth_equalityI) (simp_all add: nth)
  have mid: "g_id movingGroup = groupId"
    using found by (auto simp: find_Some_iff)
  have oldid: "\<forall>g \<in> set old. g_id g \<noteq> groupId" by (simp add: old_def)
  have "filter (\<lambda>g. g_id g \<noteq> groupId) (take k old) = take k old"
    and "filter (\<lambda>g. g_id g \<noteq> groupId) (drop k old) = drop k old"
    using oldid by (auto intro!: filter_all_pass dest: in_set_takeD in_set_dropD)
  then have "filter (\<lambda>g. g_id g \<noteq> groupId) ?sp = take k old @ drop k old"
    using mid by simp
  then have fsp: "filter (\<lambda>g. g_id g \<noteq> groupId) ?sp = old" by simp
  have keep: "map (\<lambda>g. g\<lparr>g_priority := None\<rparr>) (filter (\<lambda>g. g_id g \<noteq> groupId) S)
        = map (\<lambda>g. g\<lparr>g_priority := None\<rparr>) old"
    using filter_forget_cong[OF renumber_forget, of groupId ?sp] by (simp only: S fsp)
  have kS: "k < length S" using k len by simp
  have at: "(S ! k)\<lparr>g_priority := None\<rparr> = movingGroup\<lparr>g_parentId := newParentId, g_priority := None\<rparr>"
    using nth[OF kS] splice_nth(1)[OF k, of ?moved] by simp
  have other: "g_id (S ! j) \<noteq> groupId" if j: "j < length S" and ne: "j \<noteq> k" for j
  proof (cases "j < k")
    case True
    then have "?sp ! j = old ! j" using splice_nth(2)[OF k] by simp
    moreover have "old ! j \<in> set old" using True k by simp
    ultimately show ?thesis using nth[OF j] oldid by simp
  next
    case False
    with ne have gt: "k < j" by simp
    from j len have jl: "j \<le> length old" by simp
    have "?sp ! j = old ! (j - 1)" using splice_nth(3)[OF k gt jl] by simp
    moreover have "old ! (j - 1) \<in> set old" using gt jl by simp
    ultimately show ?thesis using nth[OF j] oldid by simp
  qed
  have pos: "(case insertBeforeGroupId of
                None \<Rightarrow> k = 0
              | Some before \<Rightarrow>
                  if before \<noteq> [] \<and> (\<exists>g \<in> set old. g_id g = before)
                  then Suc k < length S \<and> g_id (S ! Suc k) = before
                       \<and> (\<forall>j < k. g_id (S ! j) \<noteq> before)
                  else k = 0)"
  proof (cases insertBeforeGroupId)
    case None then show ?thesis using kdef by simp
  next
    case (Some before)
    show ?thesis
    proof (cases "before \<noteq> [] \<and> (\<exists>g \<in> set old. g_id g = before)")
      case False
      then show ?thesis using kdef Some
        by (auto simp: Let_def findIndex_none)
    next
      case True
      then have ne: "findIndex (\<lambda>g. g_id g = before) old \<noteq> - 1"
        by (auto simp: findIndex_none)
      with True Some kdef have kk: "k = nat (findIndex (\<lambda>g. g_id g = before) old)"
        by (simp add: Let_def)
      from findIndex_found[OF ne] kk
      have lt: "k < length old" and hit: "g_id (old ! k) = before"
        and first: "\<forall>j < k. g_id (old ! j) \<noteq> before" by simp_all
      have sk: "Suc k < length S" using lt len by simp
      have "?sp ! Suc k = old ! k" using splice_nth(3)[OF k, of "Suc k"] lt by simp
      then have a: "g_id (S ! Suc k) = before" using nth[OF sk] hit by simp
      have b: "g_id (S ! j) \<noteq> before" if "j < k" for j
      proof -
        have "?sp ! j = old ! j" using splice_nth(2)[OF k that] by simp
        moreover have "j < length S" using that kS by simp
        ultimately show ?thesis using nth[of j] first that by simp
      qed
      from True Some sk a b show ?thesis by simp
    qed
  qed
  from len prio keep kS at other pos show ?thesis by blast
qed

text \<open>
  C4 (the code at an input where the claim fails). The claim: after a successful
  \<open>moveGroupToParent\<close> the moved group stands directly before \<open>insertBeforeId\<close> and
  the remaining target siblings keep their prior relative order. Here the root groups
  \<open>a\<close> (priority 1) and \<open>b\<close> (priority 2) were made by \<open>createGroup\<close> in this
  order, so the ordering policy shows \<open>b\<close> before \<open>a\<close>; group \<open>c\<close>, a child of \<open>a\<close>,
  is moved to the root before \<open>b\<close>. The move succeeds and \<open>c\<close> stands directly before
  \<open>b\<close>, but the root groups now sort as \<open>a\<close>, \<open>c\<close>, \<open>b\<close>: the remaining siblings
  \<open>a\<close> and \<open>b\<close> have changed places. The code takes the siblings in the order of the
  flat group list and renumbers them in that order; it does not sort them by the ordering
  policy first, as \<open>moveGroupRelative\<close> and \<open>moveBookmarkRelative\<close> do.
\<close>

theorem moveGroupToParent_reorders_remaining_siblings:
  "map g_id (array_sort sortGroups (filter (\<lambda>g. g_parentId g = None)
     [\<lparr>g_id = ''a'', g_name = ''A'', g_isDefault = False, g_created = 1,
        g_parentId = None, g_priority = Some 1\<rparr>,
      \<lparr>g_id = ''b'', g_name = ''B'', g_isDefault = False, g_created = 2,
        g_parentId = None, g_priority = Some 2\<rparr>,
      \<lparr>g_id = ''c'', g_name = ''C'', g_isDefault = False, g_created = 3,
        g_parentId = Some ''a'', g_priority = Some 3\<rparr>]))
   = [''b'', ''a'']
   \<and> map g_id (array_sort sortGroups (filter (\<lambda>g. g_parentId g = None)
        (groups (moveGroupToParent ''c'' None (Some ''b'')
          \<lparr>bookmarks = [],
           groups =
     [\<lparr>g_id = ''a'', g_name = ''A'', g_isDefault = False, g_created = 1,
        g_parentId = None, g_priority = Some 1\<rparr>,
      \<lparr>g_id = ''b'', g_name = ''B'', g_isDefault = False, g_created = 2,
        g_parentId = None, g_priority = Some 2\<rparr>,
      \<lparr>g_id = ''c'', g_name = ''C'', g_isDefault = False, g_created = 3,
        g_parentId = Some ''a'', g_priority = Some 3\<rparr>],
           pendingLoad = None\<rparr>))))
   = [''a'', ''c'', ''b'']"
  by (simp add: moveGroupToParent_def awaitReady_def renumber_def Let_def array_sort_def
      sortGroups_def groupPriority_def)

subsection \<open>The ordering policy and the sort\<close>

lemma mset_insertSorted: "mset (insertSorted cmp x ys) = add_mset x (mset ys)"
  by (induction ys) auto

lemma mset_array_sort: "mset (array_sort cmp xs) = mset xs"
  unfolding array_sort_def by (induction xs) (auto simp: mset_insertSorted)

lemma set_insertSorted: "set (insertSorted cmp x ys) = insert x (set ys)"
  by (induction ys) auto

lemma sorted_insertSorted:
  assumes total: "\<And>x y. cmp x y \<le> 0 \<or> cmp y x \<le> 0"
    and trans: "\<And>x y z. cmp x y \<le> 0 \<Longrightarrow> cmp y z \<le> 0 \<Longrightarrow> cmp x z \<le> 0"
  shows "sorted_wrt (\<lambda>x y. cmp x y \<le> 0) ys \<Longrightarrow>
         sorted_wrt (\<lambda>x y. cmp x y \<le> 0) (insertSorted cmp x ys)"
proof (induction ys)
  case Nil then show ?case by simp
next
  case (Cons y ys)
  show ?case
  proof (cases "cmp x y \<le> 0")
    case True
    with Cons.prems trans show ?thesis by auto
  next
    case False
    with total[of x y] have "cmp y x \<le> 0" by simp
    with Cons False show ?thesis by (auto simp: set_insertSorted)
  qed
qed

lemma sorted_array_sort:
  assumes total: "\<And>x y. cmp x y \<le> 0 \<or> cmp y x \<le> 0"
    and trans: "\<And>x y z. cmp x y \<le> 0 \<Longrightarrow> cmp y z \<le> 0 \<Longrightarrow> cmp x z \<le> 0"
  shows "sorted_wrt (\<lambda>x y. cmp x y \<le> 0) (array_sort cmp xs)"
  unfolding array_sort_def
  by (induction xs) (simp_all add: sorted_insertSorted[OF total trans])

text \<open>Stability: the elements of one tie class keep their order.\<close>

lemma filter_insertSorted_out:
  "\<not> E x \<Longrightarrow> filter E (insertSorted cmp x ys) = filter E ys"
  by (induction ys) auto

lemma filter_insertSorted_in:
  assumes skip: "\<And>y. E y \<Longrightarrow> cmp x y \<le> 0"
  shows "E x \<Longrightarrow> filter E (insertSorted cmp x ys) = x # filter E ys"
  using skip by (induction ys) auto

lemma stable_array_sort:
  assumes cls: "\<And>x y. E x \<Longrightarrow> E y \<Longrightarrow> cmp x y \<le> 0"
  shows "filter E (array_sort cmp xs) = filter E xs"
  unfolding array_sort_def
proof (induction xs)
  case Nil then show ?case by simp
next
  case (Cons x xs)
  show ?case
  proof (cases "E x")
    case True
    then have "filter E (insertSorted cmp x (foldr (insertSorted cmp) xs []))
               = x # filter E (foldr (insertSorted cmp) xs [])"
      by (intro filter_insertSorted_in) (auto intro: cls)
    with Cons True show ?thesis by simp
  next
    case False
    with Cons show ?thesis by (simp add: filter_insertSorted_out)
  qed
qed

lemma sortBookmarks_le:
  "(sortBookmarks a b \<le> 0) =
     (bookmarkPriority a > bookmarkPriority b
      \<or> (bookmarkPriority a = bookmarkPriority b \<and> b_created a \<le> b_created b))"
  by (auto simp: sortBookmarks_def Let_def)

lemma sortBookmarks_less:
  "(sortBookmarks a b < 0) =
     (bookmarkPriority a > bookmarkPriority b
      \<or> (bookmarkPriority a = bookmarkPriority b \<and> b_created a < b_created b))"
  by (auto simp: sortBookmarks_def Let_def)

lemma sortBookmarks_tie:
  "(sortBookmarks a b = 0) =
     (bookmarkPriority a = bookmarkPriority b \<and> b_created a = b_created b)"
  by (auto simp: sortBookmarks_def Let_def)

lemma sortGroups_le:
  "(sortGroups a b \<le> 0) =
     (groupPriority a > groupPriority b
      \<or> (groupPriority a = groupPriority b \<and> g_created a \<le> g_created b))"
  by (auto simp: sortGroups_def Let_def)

lemma sortGroups_less:
  "(sortGroups a b < 0) =
     (groupPriority a > groupPriority b
      \<or> (groupPriority a = groupPriority b \<and> g_created a < g_created b))"
  by (auto simp: sortGroups_def Let_def)

lemma sortGroups_tie:
  "(sortGroups a b = 0) =
     (groupPriority a = groupPriority b \<and> g_created a = g_created b)"
  by (auto simp: sortGroups_def Let_def)

text \<open>
  C9. The comparison of the ordering policy, for bookmarks (\<open>sortBookmarks\<close>) and for
  groups (the inline comparator, \<open>sortGroups\<close>): one entity sorts strictly before
  another exactly when its priority is strictly higher, or the priorities are equal and
  it was created earlier. The rule is total (any two entities compare one way or the
  other) and transitive. Sorting a list with it gives a permutation of the list in which
  an entity of higher priority never stands after one of lower priority, and among equal
  priorities an earlier creation time never after a later one; and the sort is stable:
  the entities that tie (same priority, same creation time) keep the order of the input.
\<close>

theorem ordering_policy:
  "(sortBookmarks a b < 0 \<longleftrightarrow>
      bookmarkPriority a > bookmarkPriority b
      \<or> (bookmarkPriority a = bookmarkPriority b \<and> b_created a < b_created b))
   \<and> (sortGroups g h < 0 \<longleftrightarrow>
      groupPriority g > groupPriority h
      \<or> (groupPriority g = groupPriority h \<and> g_created g < g_created h))
   \<and> (sortBookmarks a b \<le> 0 \<or> sortBookmarks b a \<le> 0)
   \<and> (sortGroups g h \<le> 0 \<or> sortGroups h g \<le> 0)
   \<and> (sortBookmarks a b \<le> 0 \<and> sortBookmarks b c \<le> 0 \<longrightarrow> sortBookmarks a c \<le> 0)
   \<and> (sortGroups g h \<le> 0 \<and> sortGroups h k \<le> 0 \<longrightarrow> sortGroups g k \<le> 0)
   \<and> mset (array_sort sortBookmarks bs) = mset bs
   \<and> mset (array_sort sortGroups gs) = mset gs
   \<and> sorted_wrt (\<lambda>x y. bookmarkPriority x > bookmarkPriority y
         \<or> (bookmarkPriority x = bookmarkPriority y \<and> b_created x \<le> b_created y))
        (array_sort sortBookmarks bs)
   \<and> sorted_wrt (\<lambda>x y. groupPriority x > groupPriority y
         \<or> (groupPriority x = groupPriority y \<and> g_created x \<le> g_created y))
        (array_sort sortGroups gs)
   \<and> filter (\<lambda>y. sortBookmarks a y = 0) (array_sort sortBookmarks bs)
       = filter (\<lambda>y. sortBookmarks a y = 0) bs
   \<and> filter (\<lambda>y. sortGroups g y = 0) (array_sort sortGroups gs)
       = filter (\<lambda>y. sortGroups g y = 0) gs"
proof -
  have tb: "sortBookmarks x y \<le> 0 \<or> sortBookmarks y x \<le> 0" for x y
    by (auto simp: sortBookmarks_le)
  have tg: "sortGroups x y \<le> 0 \<or> sortGroups y x \<le> 0" for x y
    by (auto simp: sortGroups_le)
  have rb: "sortBookmarks x y \<le> 0 \<Longrightarrow> sortBookmarks y z \<le> 0 \<Longrightarrow> sortBookmarks x z \<le> 0"
    for x y z by (auto simp: sortBookmarks_le)
  have rg: "sortGroups x y \<le> 0 \<Longrightarrow> sortGroups y z \<le> 0 \<Longrightarrow> sortGroups x z \<le> 0"
    for x y z by (auto simp: sortGroups_le)
  have sb: "sorted_wrt (\<lambda>x y. bookmarkPriority x > bookmarkPriority y
         \<or> (bookmarkPriority x = bookmarkPriority y \<and> b_created x \<le> b_created y))
        (array_sort sortBookmarks bs)"
    using sorted_array_sort[of sortBookmarks bs, OF tb rb] by (simp add: sortBookmarks_le)
  have sg: "sorted_wrt (\<lambda>x y. groupPriority x > groupPriority y
         \<or> (groupPriority x = groupPriority y \<and> g_created x \<le> g_created y))
        (array_sort sortGroups gs)"
    using sorted_array_sort[of sortGroups gs, OF tg rg] by (simp add: sortGroups_le)
  have stb: "filter (\<lambda>y. sortBookmarks a y = 0) (array_sort sortBookmarks bs)
       = filter (\<lambda>y. sortBookmarks a y = 0) bs"
    by (rule stable_array_sort) (auto simp: sortBookmarks_tie sortBookmarks_le)
  have stg: "filter (\<lambda>y. sortGroups g y = 0) (array_sort sortGroups gs)
       = filter (\<lambda>y. sortGroups g y = 0) gs"
    by (rule stable_array_sort) (auto simp: sortGroups_tie sortGroups_le)
  show ?thesis
    using tb[of a b] tg[of g h] rb[of a b c] rg[of g h k] sb sg stb stg
    by (simp add: sortBookmarks_less sortGroups_less mset_array_sort)
qed

theorem ordering_policy_witness:
  "sortBookmarks (sampleBookmark ''x'' 5 None (Some 2)) (sampleBookmark ''y'' 1 None (Some 1)) \<le> 0
   \<and> sortBookmarks (sampleBookmark ''y'' 1 None (Some 1)) (sampleBookmark ''z'' 3 None None) \<le> 0
   \<and> sortBookmarks (sampleBookmark ''x'' 5 None (Some 2)) (sampleBookmark ''z'' 3 None None) \<le> 0
   \<and> mset (array_sort sortBookmarks
        [sampleBookmark ''z'' 3 None None, sampleBookmark ''y'' 1 None (Some 1),
         sampleBookmark ''x'' 5 None (Some 2)])
      = mset [sampleBookmark ''z'' 3 None None, sampleBookmark ''y'' 1 None (Some 1),
         sampleBookmark ''x'' 5 None (Some 2)]
   \<and> array_sort sortBookmarks
        [sampleBookmark ''z'' 3 None None, sampleBookmark ''y'' 1 None (Some 1),
         sampleBookmark ''x'' 5 None (Some 2)]
      = [sampleBookmark ''x'' 5 None (Some 2), sampleBookmark ''y'' 1 None (Some 1),
         sampleBookmark ''z'' 3 None None]"
  using ordering_policy
    [of "sampleBookmark ''x'' 5 None (Some 2)" "sampleBookmark ''y'' 1 None (Some 1)" _ _
        "sampleBookmark ''z'' 3 None None" _
        "[sampleBookmark ''z'' 3 None None, sampleBookmark ''y'' 1 None (Some 1),
         sampleBookmark ''x'' 5 None (Some 2)]" "[]"]
  by (simp add: sortBookmarks_def bookmarkPriority_def sampleBookmark_def array_sort_def)

subsection \<open>Moving a bookmark among its siblings\<close>

lemma map_snd_insertSorted:
  "map snd (insertSorted (\<lambda>x y. cmp (snd x) (snd y)) p ps) = insertSorted cmp (snd p) (map snd ps)"
  by (induction ps) auto

lemma map_snd_array_sort:
  "map snd (array_sort (\<lambda>x y. cmp (snd x) (snd y)) ps) = array_sort cmp (map snd ps)"
  unfolding array_sort_def by (induction ps) (simp_all add: map_snd_insertSorted)

lemma map_snd_filter_enumerate:
  "map snd (filter (\<lambda>x. P (snd x)) (enumerate n bs)) = filter P bs"
  by (induction bs arbitrary: n) auto

lemma set_array_sort: "set (array_sort cmp xs) = set xs"
  using mset_array_sort[of cmp xs] by (metis set_mset_mset)

lemma length_array_sort: "length (array_sort cmp xs) = length xs"
  using mset_array_sort[of cmp xs] by (metis size_mset)

lemma distinct_map_array_sort:
  "distinct (map f (array_sort cmp xs)) = distinct (map f xs)"
proof -
  have "mset (map f (array_sort cmp xs)) = mset (map f xs)"
    by (simp add: mset_array_sort)
  then show ?thesis by (rule mset_eq_imp_distinct_iff)
qed

lemma sibling_refs:
  fixes bs :: "Bookmark list" and key :: string
  defines "ps \<equiv> array_sort (\<lambda>x y. sortBookmarks (snd x) (snd y))
                  (filter (\<lambda>x. bucketKey (snd x) = key) (enumerate 0 bs))"
  shows "map snd ps = sortedSiblings bs key"
    and "distinct (map fst ps)"
    and "\<And>p. p \<in> set ps \<Longrightarrow> fst p < length bs \<and> bs ! fst p = snd p"
proof -
  show "map snd ps = sortedSiblings bs key"
    using map_snd_filter_enumerate[of "\<lambda>b. bucketKey b = key" 0 bs]
    by (simp add: ps_def sortedSiblings_def map_snd_array_sort)
  have "distinct (map fst (enumerate 0 bs))" by simp
  then have "distinct (map fst (filter (\<lambda>x. bucketKey (snd x) = key) (enumerate 0 bs)))"
    by (rule distinct_map_filter)
  then show "distinct (map fst ps)"
    by (simp add: ps_def distinct_map_array_sort)
  fix p assume "p \<in> set ps"
  then have "p \<in> set (enumerate 0 bs)" by (simp add: ps_def set_array_sort)
  then show "fst p < length bs \<and> bs ! fst p = snd p"
    by (auto simp: in_set_enumerate_eq)
qed

lemma sortedSiblings_key:
  "b \<in> set (sortedSiblings bs key) \<Longrightarrow> bucketKey b = key \<and> b \<in> set bs"
  by (simp add: sortedSiblings_def set_array_sort)

lemma forget_priority_update:
  "i < length bs \<Longrightarrow>
   map (\<lambda>b. b\<lparr>b_priority := None\<rparr>) (bs[i := (bs ! i)\<lparr>b_priority := p\<rparr>])
   = map (\<lambda>b. b\<lparr>b_priority := None\<rparr>) bs"
  by (rule nth_equalityI) (simp_all add: nth_list_update)

text \<open>What a call returns: nothing changed and false, or true and one swap.\<close>

lemma moveBookmarkRelative_result:
  fixes m :: BookmarkManager
  defines "bs \<equiv> bookmarks (awaitReady m)"
  assumes res: "moveBookmarkRelative bookmarkId delta m = (r, m')"
  shows "(\<not> r \<longrightarrow> m' = awaitReady m)
    \<and> (r \<longrightarrow> (\<exists>i j k. i < length bs \<and> j < length bs \<and> i \<noteq> j
          \<and> b_id (bs ! i) = bookmarkId
          \<and> k < length (sortedSiblings bs (bucketKey (bs ! i)))
          \<and> sortedSiblings bs (bucketKey (bs ! i)) ! k = bs ! i
          \<and> (if delta = 1
              then 0 < k \<and> sortedSiblings bs (bucketKey (bs ! i)) ! (k - 1) = bs ! j
              else Suc k < length (sortedSiblings bs (bucketKey (bs ! i)))
                   \<and> sortedSiblings bs (bucketKey (bs ! i)) ! Suc k = bs ! j)
          \<and> m' = (awaitReady m)\<lparr>bookmarks :=
                bs[i := (bs ! i)\<lparr>b_priority := Some (bookmarkPriority (bs ! j))\<rparr>,
                   j := (bs ! j)\<lparr>b_priority := Some (bookmarkPriority (bs ! i))\<rparr>]\<rparr>))"
proof (cases "find (\<lambda>b. b_id b = bookmarkId) bs")
  case None
  with res show ?thesis by (auto simp: moveBookmarkRelative_def bs_def Let_def)
next
  case (Some bm)
  define key where "key = bucketKey bm"
  define ps where "ps = array_sort (\<lambda>x y. sortBookmarks (snd x) (snd y))
                  (filter (\<lambda>x. bucketKey (snd x) = key) (enumerate 0 bs))"
  define idx where "idx = findIndex (\<lambda>x. b_id (snd x) = bookmarkId) ps"
  define target where "target = (if delta = 1 then idx - 1 else idx + 1)"
  note refs = sibling_refs[where bs = bs and key = key, folded ps_def]
  have unfold: "moveBookmarkRelative bookmarkId delta m =
     (if idx = - 1 then (False, awaitReady m)
      else if target < 0 \<or> target \<ge> int (length ps) then (False, awaitReady m)
      else (True, (awaitReady m)\<lparr>bookmarks :=
              (bs[fst (ps ! nat idx) := (bs ! fst (ps ! nat idx))
                    \<lparr>b_priority := Some (bookmarkPriority (bs ! fst (ps ! nat target)))\<rparr>])
                [fst (ps ! nat target) :=
                   ((bs[fst (ps ! nat idx) := (bs ! fst (ps ! nat idx))
                    \<lparr>b_priority := Some (bookmarkPriority (bs ! fst (ps ! nat target)))\<rparr>])
                     ! fst (ps ! nat target))
                    \<lparr>b_priority := Some (bookmarkPriority (bs ! fst (ps ! nat idx)))\<rparr>]\<rparr>))"
    using Some
    by (simp add: moveBookmarkRelative_def Let_def bs_def key_def ps_def idx_def target_def)
  show ?thesis
  proof (cases "idx = - 1 \<or> target < 0 \<or> target \<ge> int (length ps)")
    case True
    with res unfold show ?thesis by (auto split: if_splits)
  next
    case False
    then have idx: "idx \<noteq> - 1" and t0: "0 \<le> target" and t1: "target < int (length ps)"
      by auto
    from findIndex_found[of "\<lambda>x. b_id (snd x) = bookmarkId" ps] idx
    have k: "nat idx < length ps" and hit: "b_id (snd (ps ! nat idx)) = bookmarkId"
      by (simp_all add: idx_def)
    have idx0: "0 \<le> idx" using findIndex_range[of "\<lambda>x. b_id (snd x) = bookmarkId" ps] idx
      by (simp add: idx_def)
    let ?i = "fst (ps ! nat idx)" and ?j = "fst (ps ! nat target)"
    have tl: "nat target < length ps" using t0 t1 by simp
    have ne: "nat idx \<noteq> nat target" using idx0 t0 by (auto simp: target_def split: if_splits)
    have pi: "?i < length bs \<and> bs ! ?i = snd (ps ! nat idx)"
      using refs(3)[of "ps ! nat idx"] k by simp
    have pj: "?j < length bs \<and> bs ! ?j = snd (ps ! nat target)"
      using refs(3)[of "ps ! nat target"] tl by simp
    have ij: "?i \<noteq> ?j"
      using refs(2) k tl ne by (simp add: distinct_conv_nth)
    have si: "snd (ps ! nat idx) \<in> set (sortedSiblings bs key)"
      using k refs(1) by (metis length_map nth_map nth_mem)
    then have keyi: "bucketKey (bs ! ?i) = key" using pi sortedSiblings_key by metis
    have lens: "length (sortedSiblings bs key) = length ps"
      using refs(1) by (metis length_map)
    have sk: "sortedSiblings bs key ! n = snd (ps ! n)" if "n < length ps" for n
      using refs(1) that by (metis nth_map)
    have nb: "(if delta = 1
              then 0 < nat idx \<and> sortedSiblings bs key ! (nat idx - 1) = bs ! ?j
              else Suc (nat idx) < length (sortedSiblings bs key)
                   \<and> sortedSiblings bs key ! Suc (nat idx) = bs ! ?j)"
    proof (cases "delta = 1")
      case True
      then have tt: "target = idx - 1" by (simp add: target_def)
      with t0 have "0 < nat idx" by simp
      moreover have "nat target = nat idx - 1" using tt idx0 by simp
      ultimately show ?thesis using True sk[OF tl] pj by simp
    next
      case False
      then have tt: "target = idx + 1" by (simp add: target_def)
      then have "nat target = Suc (nat idx)" using idx0 by simp
      then show ?thesis using False sk[OF tl] pj tl lens by simp
    qed
    from False res unfold have r: "r"
      and m': "m' = (awaitReady m)\<lparr>bookmarks :=
              (bs[?i := (bs ! ?i)\<lparr>b_priority := Some (bookmarkPriority (bs ! ?j))\<rparr>])
                [?j := ((bs[?i := (bs ! ?i)\<lparr>b_priority := Some (bookmarkPriority (bs ! ?j))\<rparr>]) ! ?j)
                    \<lparr>b_priority := Some (bookmarkPriority (bs ! ?i))\<rparr>]\<rparr>"
      by (auto split: if_splits)
    have "(bs[?i := (bs ! ?i)\<lparr>b_priority := Some (bookmarkPriority (bs ! ?j))\<rparr>]) ! ?j = bs ! ?j"
      using ij by simp
    with m' have m'': "m' = (awaitReady m)\<lparr>bookmarks :=
                bs[?i := (bs ! ?i)\<lparr>b_priority := Some (bookmarkPriority (bs ! ?j))\<rparr>,
                   ?j := (bs ! ?j)\<lparr>b_priority := Some (bookmarkPriority (bs ! ?i))\<rparr>]\<rparr>"
      by simp
    have f1: "?i < length bs" and f2: "?j < length bs" using pi pj by simp_all
    have f4: "b_id (bs ! ?i) = bookmarkId" using pi hit by simp
    have f5: "nat idx < length (sortedSiblings bs (bucketKey (bs ! ?i)))"
      unfolding keyi using k lens by simp
    have f6: "sortedSiblings bs (bucketKey (bs ! ?i)) ! nat idx = bs ! ?i"
      unfolding keyi using sk[OF k] pi by simp
    have f7: "(if delta = 1
              then 0 < nat idx \<and> sortedSiblings bs (bucketKey (bs ! ?i)) ! (nat idx - 1) = bs ! ?j
              else Suc (nat idx) < length (sortedSiblings bs (bucketKey (bs ! ?i)))
                   \<and> sortedSiblings bs (bucketKey (bs ! ?i)) ! Suc (nat idx) = bs ! ?j)"
      unfolding keyi by (rule nb)
    have "\<exists>i j k. i < length bs \<and> j < length bs \<and> i \<noteq> j
          \<and> b_id (bs ! i) = bookmarkId
          \<and> k < length (sortedSiblings bs (bucketKey (bs ! i)))
          \<and> sortedSiblings bs (bucketKey (bs ! i)) ! k = bs ! i
          \<and> (if delta = 1
              then 0 < k \<and> sortedSiblings bs (bucketKey (bs ! i)) ! (k - 1) = bs ! j
              else Suc k < length (sortedSiblings bs (bucketKey (bs ! i)))
                   \<and> sortedSiblings bs (bucketKey (bs ! i)) ! Suc k = bs ! j)
          \<and> m' = (awaitReady m)\<lparr>bookmarks :=
                bs[i := (bs ! i)\<lparr>b_priority := Some (bookmarkPriority (bs ! j))\<rparr>,
                   j := (bs ! j)\<lparr>b_priority := Some (bookmarkPriority (bs ! i))\<rparr>]\<rparr>"
      apply (rule exI[of _ ?i], rule exI[of _ ?j], rule exI[of _ "nat idx"])
      apply (intro conjI)
      apply (rule f1, rule f2, rule ij, rule f4, rule f5, rule f6, rule f7, rule m'')
      done
    with r show ?thesis by simp
  qed
qed


text \<open>
  C6. Whenever \<open>moveBookmarkRelative\<close> returns true, there are two different positions
  \<open>i\<close> and \<open>j\<close> of the bookmark list such that the bookmark at \<open>i\<close> has the given id,
  the bookmark at \<open>j\<close> is its neighbour in the requested direction in the sorted sibling
  bucket (the one before it for \<open>delta = 1\<close>, the one after it otherwise), and the list
  afterwards is the list before with exactly these two entries changed: each has its
  own fields and the other's priority (an absent priority is read as 0, as everywhere in
  the code). Hence no bookmark changes in any field but \<open>priority\<close>, no other bookmark
  changes at all, and the group list is as it was.
\<close>

theorem moveBookmarkRelative_swaps_two:
  fixes m m' :: BookmarkManager and bookmarkId :: string and delta :: int
  defines "bs \<equiv> bookmarks (awaitReady m)"
  assumes ok: "moveBookmarkRelative bookmarkId delta m = (True, m')"
  shows "\<exists>i j k. i < length bs \<and> j < length bs \<and> i \<noteq> j
          \<and> b_id (bs ! i) = bookmarkId
          \<and> k < length (sortedSiblings bs (bucketKey (bs ! i)))
          \<and> sortedSiblings bs (bucketKey (bs ! i)) ! k = bs ! i
          \<and> (if delta = 1
              then 0 < k \<and> sortedSiblings bs (bucketKey (bs ! i)) ! (k - 1) = bs ! j
              else Suc k < length (sortedSiblings bs (bucketKey (bs ! i)))
                   \<and> sortedSiblings bs (bucketKey (bs ! i)) ! Suc k = bs ! j)
          \<and> bookmarks m' =
                bs[i := (bs ! i)\<lparr>b_priority := Some (bookmarkPriority (bs ! j))\<rparr>,
                   j := (bs ! j)\<lparr>b_priority := Some (bookmarkPriority (bs ! i))\<rparr>]
          \<and> map (\<lambda>b. b\<lparr>b_priority := None\<rparr>) (bookmarks m')
              = map (\<lambda>b. b\<lparr>b_priority := None\<rparr>) bs
          \<and> groups m' = groups (awaitReady m)"
proof -
  from moveBookmarkRelative_result[OF ok, folded bs_def]
  obtain i j k where i: "i < length bs" and j: "j < length bs" and ij: "i \<noteq> j"
    and id: "b_id (bs ! i) = bookmarkId"
    and k: "k < length (sortedSiblings bs (bucketKey (bs ! i)))"
    and at: "sortedSiblings bs (bucketKey (bs ! i)) ! k = bs ! i"
    and nb: "(if delta = 1
              then 0 < k \<and> sortedSiblings bs (bucketKey (bs ! i)) ! (k - 1) = bs ! j
              else Suc k < length (sortedSiblings bs (bucketKey (bs ! i)))
                   \<and> sortedSiblings bs (bucketKey (bs ! i)) ! Suc k = bs ! j)"
    and m': "m' = (awaitReady m)\<lparr>bookmarks :=
                bs[i := (bs ! i)\<lparr>b_priority := Some (bookmarkPriority (bs ! j))\<rparr>,
                   j := (bs ! j)\<lparr>b_priority := Some (bookmarkPriority (bs ! i))\<rparr>]\<rparr>"
    by auto
  have b: "bookmarks m' =
                bs[i := (bs ! i)\<lparr>b_priority := Some (bookmarkPriority (bs ! j))\<rparr>,
                   j := (bs ! j)\<lparr>b_priority := Some (bookmarkPriority (bs ! i))\<rparr>]"
    and g: "groups m' = groups (awaitReady m)"
    using m' by simp_all
  have f: "map (\<lambda>b. b\<lparr>b_priority := None\<rparr>) (bookmarks m')
              = map (\<lambda>b. b\<lparr>b_priority := None\<rparr>) bs"
    unfolding b by (rule nth_equalityI) (use i j in \<open>auto simp: nth_list_update\<close>)
  show ?thesis
    apply (rule exI[of _ i], rule exI[of _ j], rule exI[of _ k])
    apply (intro conjI)
    apply (rule i, rule j, rule ij, rule id, rule k, rule at, rule nb, rule b, rule f, rule g)
    done
qed

theorem moveBookmarkRelative_swaps_two_witness:
  "moveBookmarkRelative ''y'' 1
       \<lparr>bookmarks = [sampleBookmark ''x'' 5 None (Some 2), sampleBookmark ''y'' 1 None (Some 1),
                     sampleBookmark ''z'' 3 None None],
        groups = [], pendingLoad = None\<rparr>
   = (True,
       \<lparr>bookmarks = [sampleBookmark ''x'' 5 None (Some 1), sampleBookmark ''y'' 1 None (Some 2),
                     sampleBookmark ''z'' 3 None None],
        groups = [], pendingLoad = None\<rparr>)
   \<and> map (\<lambda>b. b\<lparr>b_priority := None\<rparr>) (bookmarks
       \<lparr>bookmarks = [sampleBookmark ''x'' 5 None (Some 1), sampleBookmark ''y'' 1 None (Some 2),
                     sampleBookmark ''z'' 3 None None],
        groups = [], pendingLoad = None\<rparr>)
     = map (\<lambda>b. b\<lparr>b_priority := None\<rparr>) (bookmarks (awaitReady
       \<lparr>bookmarks = [sampleBookmark ''x'' 5 None (Some 2), sampleBookmark ''y'' 1 None (Some 1),
                     sampleBookmark ''z'' 3 None None],
        groups = [], pendingLoad = None\<rparr>))"
proof -
  have e: "moveBookmarkRelative ''y'' 1
       \<lparr>bookmarks = [sampleBookmark ''x'' 5 None (Some 2), sampleBookmark ''y'' 1 None (Some 1),
                     sampleBookmark ''z'' 3 None None],
        groups = [], pendingLoad = None\<rparr>
   = (True,
       \<lparr>bookmarks = [sampleBookmark ''x'' 5 None (Some 1), sampleBookmark ''y'' 1 None (Some 2),
                     sampleBookmark ''z'' 3 None None],
        groups = [], pendingLoad = None\<rparr>)"
    by (simp add: moveBookmarkRelative_def awaitReady_def Let_def bucketKey_def sampleBookmark_def
        array_sort_def sortBookmarks_def bookmarkPriority_def sortedSiblings_def)
  from moveBookmarkRelative_swaps_two[OF e]
  have "map (\<lambda>b. b\<lparr>b_priority := None\<rparr>) (bookmarks
       \<lparr>bookmarks = [sampleBookmark ''x'' 5 None (Some 1), sampleBookmark ''y'' 1 None (Some 2),
                     sampleBookmark ''z'' 3 None None],
        groups = [], pendingLoad = None\<rparr>)
     = map (\<lambda>b. b\<lparr>b_priority := None\<rparr>) (bookmarks (awaitReady
       \<lparr>bookmarks = [sampleBookmark ''x'' 5 None (Some 2), sampleBookmark ''y'' 1 None (Some 1),
                     sampleBookmark ''z'' 3 None None],
        groups = [], pendingLoad = None\<rparr>))"
    by blast
  with e show ?thesis by blast
qed

text \<open>With unique ids, the call succeeds exactly when the neighbour exists.\<close>

lemma findIndex_unique:
  "k < length xs \<Longrightarrow> P (xs ! k) \<Longrightarrow> \<forall>j < k. \<not> P (xs ! j) \<Longrightarrow> findIndex P xs = int k"
proof (induction xs arbitrary: k)
  case Nil then show ?case by simp
next
  case (Cons x xs)
  show ?case
  proof (cases k)
    case 0 with Cons.prems show ?thesis by simp
  next
    case (Suc n)
    with Cons.prems have "\<not> P x" by auto
    moreover from Suc Cons.prems have "findIndex P xs = int n"
      by (intro Cons.IH) auto
    ultimately show ?thesis using Suc by (simp add: Let_def)
  qed
qed

lemma find_distinct:
  "distinct (map f xs) \<Longrightarrow> x \<in> set xs \<Longrightarrow> find (\<lambda>y. f y = f x) xs = Some x"
  by (induction xs) (auto simp: image_iff)

lemma distinct_sortedSiblings:
  "distinct (map b_id bs) \<Longrightarrow> distinct (map b_id (sortedSiblings bs key))"
  by (simp add: sortedSiblings_def distinct_map_array_sort distinct_map_filter)

lemma moveBookmarkRelative_position:
  fixes m :: BookmarkManager and bm :: Bookmark
  defines "bs \<equiv> bookmarks (awaitReady m)"
  defines "s \<equiv> sortedSiblings bs (bucketKey bm)"
  assumes d: "distinct (map b_id bs)" and k: "k < length s" and at: "s ! k = bm"
  shows "fst (moveBookmarkRelative (b_id bm) delta m)
         = (if delta = 1 then 0 < k else Suc k < length s)"
proof -
  define ps where "ps = array_sort (\<lambda>x y. sortBookmarks (snd x) (snd y))
                  (filter (\<lambda>x. bucketKey (snd x) = bucketKey bm) (enumerate 0 bs))"
  note refs = sibling_refs[where bs = bs and key = "bucketKey bm", folded ps_def s_def]
  have "bm \<in> set s" using k at by (metis nth_mem)
  then have "bm \<in> set bs" unfolding s_def by (simp add: sortedSiblings_key)
  then have found: "find (\<lambda>b. b_id b = b_id bm) bs = Some bm"
    using find_distinct[OF d] by simp
  have len: "length ps = length s" using refs(1) by (metis length_map)
  have ds: "distinct (map b_id s)" unfolding s_def by (rule distinct_sortedSiblings[OF d])
  have sn: "snd (ps ! n) = s ! n" if "n < length ps" for n
    using refs(1) that by (metis nth_map)
  have "\<forall>j < k. b_id (snd (ps ! j)) \<noteq> b_id (snd (ps ! k))"
  proof (intro allI impI)
    fix j assume "j < k"
    then have "b_id (s ! j) \<noteq> b_id (s ! k)"
      using ds k by (simp add: distinct_conv_nth)
    then show "b_id (snd (ps ! j)) \<noteq> b_id (snd (ps ! k))"
      using sn \<open>j < k\<close> k len by simp
  qed
  then have idx: "findIndex (\<lambda>x. b_id (snd x) = b_id bm) ps = int k"
    using k len sn[of k] at by (intro findIndex_unique) simp_all
  show ?thesis
    using found idx len k
    by (auto simp: moveBookmarkRelative_def Let_def bs_def[symmetric] ps_def[symmetric])
qed


lemma mem_sortedSiblings:
  "b \<in> set bs \<Longrightarrow> b \<in> set (sortedSiblings bs (bucketKey b))"
  by (simp add: sortedSiblings_def set_array_sort)

text \<open>
  C7. In a bookmark list with unique ids: for a bookmark that stands first in its sorted
  sibling bucket, \<open>moveBookmarkRelative\<close> toward the front (\<open>delta = 1\<close>) returns false,
  and for one that stands last, \<open>moveBookmarkRelative\<close> toward the back
  (\<open>delta = -1\<close>) returns false; in both cases the state afterwards is the state the
  call found, so every priority is unchanged.
\<close>

theorem moveBookmarkRelative_no_neighbour:
  fixes m :: BookmarkManager and bm :: Bookmark
  defines "bs \<equiv> bookmarks (awaitReady m)"
  defines "s \<equiv> sortedSiblings bs (bucketKey bm)"
  assumes d: "distinct (map b_id bs)" and mem: "bm \<in> set bs"
  shows "(hd s = bm \<longrightarrow> moveBookmarkRelative (b_id bm) 1 m = (False, awaitReady m))
       \<and> (last s = bm \<longrightarrow> moveBookmarkRelative (b_id bm) (- 1) m = (False, awaitReady m))"
proof (intro conjI impI)
  have ne: "s \<noteq> []" using mem_sortedSiblings[OF mem] unfolding s_def by auto
  {
    assume h: "hd s = bm"
    have k: "0 < length s" using ne by simp
    have at: "s ! 0 = bm" using h ne by (simp add: hd_conv_nth)
    have "\<not> fst (moveBookmarkRelative (b_id bm) 1 m)"
      using moveBookmarkRelative_position[OF d[unfolded bs_def] k[unfolded s_def bs_def]
          at[unfolded s_def bs_def], of 1]
      by simp
    then show "moveBookmarkRelative (b_id bm) 1 m = (False, awaitReady m)"
      using moveBookmarkRelative_result[of "b_id bm" 1 m
          "fst (moveBookmarkRelative (b_id bm) 1 m)" "snd (moveBookmarkRelative (b_id bm) 1 m)"]
      by (simp add: prod_eq_iff)
  }
  {
    assume l: "last s = bm"
    have k: "length s - 1 < length s" using ne by simp
    have at: "s ! (length s - 1) = bm" using l ne by (simp add: last_conv_nth)
    have "\<not> fst (moveBookmarkRelative (b_id bm) (- 1) m)"
      using moveBookmarkRelative_position[OF d[unfolded bs_def] k[unfolded s_def bs_def]
          at[unfolded s_def bs_def], of "- 1"] ne
      by (simp add: s_def bs_def)
    then show "moveBookmarkRelative (b_id bm) (- 1) m = (False, awaitReady m)"
      using moveBookmarkRelative_result[of "b_id bm" "- 1" m
          "fst (moveBookmarkRelative (b_id bm) (- 1) m)"
          "snd (moveBookmarkRelative (b_id bm) (- 1) m)"]
      by (simp add: prod_eq_iff)
  }
qed

theorem moveBookmarkRelative_no_neighbour_witness:
  "moveBookmarkRelative ''x'' 1
       \<lparr>bookmarks = [sampleBookmark ''x'' 5 None (Some 2), sampleBookmark ''y'' 1 None (Some 1),
                     sampleBookmark ''z'' 3 None None],
        groups = [], pendingLoad = None\<rparr>
   = (False,
       \<lparr>bookmarks = [sampleBookmark ''x'' 5 None (Some 2), sampleBookmark ''y'' 1 None (Some 1),
                     sampleBookmark ''z'' 3 None None],
        groups = [], pendingLoad = None\<rparr>)
   \<and> moveBookmarkRelative ''z'' (- 1)
       \<lparr>bookmarks = [sampleBookmark ''x'' 5 None (Some 2), sampleBookmark ''y'' 1 None (Some 1),
                     sampleBookmark ''z'' 3 None None],
        groups = [], pendingLoad = None\<rparr>
   = (False,
       \<lparr>bookmarks = [sampleBookmark ''x'' 5 None (Some 2), sampleBookmark ''y'' 1 None (Some 1),
                     sampleBookmark ''z'' 3 None None],
        groups = [], pendingLoad = None\<rparr>)"
  using moveBookmarkRelative_no_neighbour
      [where m = "\<lparr>bookmarks = [sampleBookmark ''x'' 5 None (Some 2), sampleBookmark ''y'' 1 None (Some 1),
                     sampleBookmark ''z'' 3 None None],
        groups = [], pendingLoad = None\<rparr>"
         and bm = "sampleBookmark ''x'' 5 None (Some 2)", THEN conjunct1]
    moveBookmarkRelative_no_neighbour
      [where m = "\<lparr>bookmarks = [sampleBookmark ''x'' 5 None (Some 2), sampleBookmark ''y'' 1 None (Some 1),
                     sampleBookmark ''z'' 3 None None],
        groups = [], pendingLoad = None\<rparr>"
         and bm = "sampleBookmark ''z'' 3 None None", THEN conjunct2]
  by (simp add: awaitReady_def Let_def bucketKey_def sampleBookmark_def
        array_sort_def sortBookmarks_def bookmarkPriority_def sortedSiblings_def)

text \<open>Reading an absent priority as 0 changes neither the bucket nor the comparison.\<close>

lemma insertSorted_map:
  "(\<And>x y. cmp (f x) (f y) = cmp x y) \<Longrightarrow>
   map f (insertSorted cmp x ys) = insertSorted cmp (f x) (map f ys)"
  by (induction ys) auto

lemma array_sort_map:
  "(\<And>x y. cmp (f x) (f y) = cmp x y) \<Longrightarrow>
   map f (array_sort cmp xs) = array_sort cmp (map f xs)"
  unfolding array_sort_def by (induction xs) (simp_all add: insertSorted_map)

lemma bookmarkPriority_default:
  "bookmarkPriority (b\<lparr>b_priority := Some p\<rparr>) = p"
  by (simp add: bookmarkPriority_def)

lemma sortedSiblings_default:
  "map (\<lambda>b. b\<lparr>b_priority := Some (bookmarkPriority b)\<rparr>) (sortedSiblings bs key)
   = sortedSiblings (map (\<lambda>b. b\<lparr>b_priority := Some (bookmarkPriority b)\<rparr>) bs) key"
proof -
  let ?f = "\<lambda>b. b\<lparr>b_priority := Some (bookmarkPriority b)\<rparr>"
  have c: "sortBookmarks (?f x) (?f y) = sortBookmarks x y" for x y
    by (simp add: sortBookmarks_def Let_def bookmarkPriority_default)
  have k: "bucketKey (?f x) = bucketKey x" for x
    by (simp add: bucketKey_def)
  have "map ?f (filter (\<lambda>b. bucketKey b = key) bs)
        = filter (\<lambda>b. bucketKey b = key) (map ?f bs)"
    by (simp add: filter_map comp_def k)
  then show ?thesis
    unfolding sortedSiblings_def by (simp add: array_sort_map[of sortBookmarks ?f, OF c])
qed

text \<open>
  C10. In a bookmark list with unique ids, let a bookmark stand at position \<open>k\<close> of its
  sorted sibling bucket, and let it have a neighbour in the requested direction (position
  \<open>k - 1\<close> for \<open>delta = 1\<close>, \<open>k + 1\<close> otherwise) whose priority equals its own. Then
  \<open>moveBookmarkRelative\<close> returns true, and yet every bookmark has the priority it had
  (an absent priority read as 0, as the code reads it) and every other field as it was;
  so every sorted sibling bucket is in the same order as before, and the group list is
  unchanged.
\<close>

theorem moveBookmarkRelative_equal_priority:
  fixes m :: BookmarkManager and bm :: Bookmark and delta :: int and k :: nat and key :: string
  defines "bs \<equiv> bookmarks (awaitReady m)"
  defines "s \<equiv> sortedSiblings bs (bucketKey bm)"
  defines "res \<equiv> moveBookmarkRelative (b_id bm) delta m"
  assumes d: "distinct (map b_id bs)" and k: "k < length s" and at: "s ! k = bm"
    and nb: "if delta = 1
             then 0 < k \<and> bookmarkPriority (s ! (k - 1)) = bookmarkPriority bm
             else Suc k < length s \<and> bookmarkPriority (s ! Suc k) = bookmarkPriority bm"
  shows "fst res = True
    \<and> map bookmarkPriority (bookmarks (snd res)) = map bookmarkPriority bs
    \<and> map (\<lambda>b. b\<lparr>b_priority := Some (bookmarkPriority b)\<rparr>) (bookmarks (snd res))
        = map (\<lambda>b. b\<lparr>b_priority := Some (bookmarkPriority b)\<rparr>) bs
    \<and> map (\<lambda>b. b\<lparr>b_priority := Some (bookmarkPriority b)\<rparr>)
          (sortedSiblings (bookmarks (snd res)) key)
        = map (\<lambda>b. b\<lparr>b_priority := Some (bookmarkPriority b)\<rparr>) (sortedSiblings bs key)
    \<and> groups (snd res) = groups (awaitReady m)"
proof -
  let ?f = "\<lambda>b. b\<lparr>b_priority := Some (bookmarkPriority b)\<rparr>"
  have r: "fst res"
    using moveBookmarkRelative_position[OF d[unfolded bs_def] k[unfolded s_def bs_def]
        at[unfolded s_def bs_def], of delta] nb
    by (auto simp: res_def s_def bs_def split: if_splits)
  have "moveBookmarkRelative (b_id bm) delta m = (True, snd res)"
    using r by (simp add: res_def prod_eq_iff)
  from moveBookmarkRelative_result[OF this, folded bs_def]
  obtain i j k' where i: "i < length bs" and j: "j < length bs" and ij: "i \<noteq> j"
    and id: "b_id (bs ! i) = b_id bm"
    and k': "k' < length (sortedSiblings bs (bucketKey (bs ! i)))"
    and at': "sortedSiblings bs (bucketKey (bs ! i)) ! k' = bs ! i"
    and nb': "(if delta = 1
              then 0 < k' \<and> sortedSiblings bs (bucketKey (bs ! i)) ! (k' - 1) = bs ! j
              else Suc k' < length (sortedSiblings bs (bucketKey (bs ! i)))
                   \<and> sortedSiblings bs (bucketKey (bs ! i)) ! Suc k' = bs ! j)"
    and m': "snd res = (awaitReady m)\<lparr>bookmarks :=
                bs[i := (bs ! i)\<lparr>b_priority := Some (bookmarkPriority (bs ! j))\<rparr>,
                   j := (bs ! j)\<lparr>b_priority := Some (bookmarkPriority (bs ! i))\<rparr>]\<rparr>"
    by auto
  have "bm \<in> set s" using k at by (metis nth_mem)
  then have mem: "bm \<in> set bs" unfolding s_def by (simp add: sortedSiblings_key)
  have "inj_on b_id (set bs)" using d by (simp add: distinct_map)
  then have bi: "bs ! i = bm" using id i mem by (auto dest: inj_onD)
  have ds: "distinct s"
    using distinct_sortedSiblings[OF d, of "bucketKey bm"] unfolding s_def
    by (simp add: distinct_map)
  from k' at' have "k' < length s" "s ! k' = s ! k" by (simp_all add: bi s_def at[unfolded s_def])
  with ds k have kk: "k' = k" by (simp add: nth_eq_iff_index_eq)
  have eq: "bookmarkPriority (bs ! j) = bookmarkPriority (bs ! i)"
    using nb nb' unfolding bi kk s_def by (auto split: if_splits)
  have b: "bookmarks (snd res) =
                bs[i := (bs ! i)\<lparr>b_priority := Some (bookmarkPriority (bs ! i))\<rparr>,
                   j := (bs ! j)\<lparr>b_priority := Some (bookmarkPriority (bs ! j))\<rparr>]"
    using m' eq by simp
  have n: "map ?f (bookmarks (snd res)) = map ?f bs"
    unfolding b
    by (rule nth_equalityI)
      (use i j in \<open>auto simp: nth_list_update bookmarkPriority_default\<close>)
  have p: "map bookmarkPriority (bookmarks (snd res)) = map bookmarkPriority bs"
    unfolding b
    by (rule nth_equalityI)
      (use i j in \<open>auto simp: nth_list_update bookmarkPriority_default\<close>)
  have o: "map ?f (sortedSiblings (bookmarks (snd res)) key) = map ?f (sortedSiblings bs key)"
    by (simp only: sortedSiblings_default n)
  have g: "groups (snd res) = groups (awaitReady m)" using m' by simp
  from r p n o g show ?thesis by simp
qed


theorem moveBookmarkRelative_equal_priority_witness:
  "fst (moveBookmarkRelative ''z'' 1
       \<lparr>bookmarks = [sampleBookmark ''u'' 1 None (Some 0), sampleBookmark ''z'' 3 None None],
        groups = [], pendingLoad = None\<rparr>) = True
   \<and> map bookmarkPriority (bookmarks (snd (moveBookmarkRelative ''z'' 1
       \<lparr>bookmarks = [sampleBookmark ''u'' 1 None (Some 0), sampleBookmark ''z'' 3 None None],
        groups = [], pendingLoad = None\<rparr>)))
     = [0, 0]"
  using moveBookmarkRelative_equal_priority
      [where m = "\<lparr>bookmarks = [sampleBookmark ''u'' 1 None (Some 0), sampleBookmark ''z'' 3 None None],
        groups = [], pendingLoad = None\<rparr>"
         and bm = "sampleBookmark ''z'' 3 None None" and k = "Suc 0" and delta = 1]
  by (simp add: awaitReady_def Let_def bucketKey_def sampleBookmark_def
        array_sort_def sortBookmarks_def bookmarkPriority_def sortedSiblings_def)

subsection \<open>Removing a group with its descendants\<close>

text \<open>More depth never changes a result.\<close>

lemma removeGroup_depth_Suc:
  "removeGroup n x m = Some m' \<Longrightarrow> removeGroup (Suc n) x m = Some m'"
  "removeSubGroups n cs m = Some m' \<Longrightarrow> removeSubGroups (Suc n) cs m = Some m'"
proof (induction n x m and n cs m arbitrary: m' and m' rule: removeGroup_removeSubGroups.induct)
  case (1 groupId m)
  then show ?case by simp
next
  case (2 depth groupId m)
  show ?case
  proof (cases "find (\<lambda>g. g_id g = groupId) (groups m)")
    case None
    with 2 show ?thesis by simp
  next
    case (Some grp)
    with "2.prems" obtain m1 where
      m1: "removeSubGroups depth (filter (\<lambda>g. g_parentId g = Some groupId) (groups m)) m = Some m1"
      by (auto split: option.splits)
    from "2.IH"[OF Some m1] have
      "removeSubGroups (Suc depth) (filter (\<lambda>g. g_parentId g = Some groupId) (groups m)) m = Some m1" .
    with "2.prems" Some m1 show ?thesis by simp
  qed
next
  case (3 depth m)
  then show ?case by simp
next
  case (4 depth subGroup rest m)
  from "4.prems" obtain m1 where m1: "removeGroup depth (g_id subGroup) m = Some m1"
    and r: "removeSubGroups depth rest m1 = Some m'"
    by (auto split: option.splits)
  from "4.IH"(1)[OF m1] have a: "removeGroup (Suc depth) (g_id subGroup) m = Some m1" .
  from "4.IH"(2)[OF m1 r] have b: "removeSubGroups (Suc depth) rest m1 = Some m'" .
  show ?case using a b by (simp del: removeGroup.simps)
qed

lemma removeGroup_depth_mono:
  "removeGroup n x m = Some m' \<Longrightarrow> n \<le> k \<Longrightarrow> removeGroup k x m = Some m'"
  by (induction k) (auto simp: le_Suc_eq removeGroup_depth_Suc(1) simp del: removeGroup.simps)

lemma removeSubGroups_depth_mono:
  "removeSubGroups n cs m = Some m' \<Longrightarrow> n \<le> k \<Longrightarrow> removeSubGroups k cs m = Some m'"
  by (induction k) (auto simp: le_Suc_eq removeGroup_depth_Suc(2) simp del: removeSubGroups.simps)


lemma withoutGroups_twice:
  "withoutGroups A (withoutGroups B gs) = withoutGroups (A \<union> B) gs"
  by (auto simp: withoutGroups_def intro: filter_cong)

lemma reassigned_twice:
  "reassigned A t (reassigned B t bs) = reassigned (A \<union> B) t bs"
  by (auto simp: reassigned_def split: option.splits)

lemma reassigned_final:
  "map (\<lambda>b. if b_groupId b = Some x then b\<lparr>b_groupId := t\<rparr> else b)
     (reassigned U (Some x) bs) = reassigned (insert x U) t bs"
  by (auto simp: reassigned_def split: option.splits)

lemma withoutGroups_final:
  "filter (\<lambda>g. g_id g \<noteq> x) (withoutGroups U gs) = withoutGroups (insert x U) gs"
  by (auto simp: withoutGroups_def intro: filter_cong)

lemma parentRel_withoutGroups: "parentRel (withoutGroups X gs) \<subseteq> parentRel gs"
  by (auto simp: parentRel_def withoutGroups_def)

lemma subtreeIds_unfold:
  "subtreeIds gs x =
     insert x (\<Union>c \<in> set (filter (\<lambda>g. g_parentId g = Some x) gs). subtreeIds gs (g_id c))"
proof (intro set_eqI iffI)
  fix y assume "y \<in> subtreeIds gs x"
  then have "(y, x) \<in> (parentRel gs)\<^sup>*" by (simp add: subtreeIds_def)
  then show "y \<in> insert x (\<Union>c \<in> set (filter (\<lambda>g. g_parentId g = Some x) gs).
                 subtreeIds gs (g_id c))"
  proof (cases rule: rtranclE)
    case base then show ?thesis by simp
  next
    case (step c)
    from step(2) obtain g where "g \<in> set gs" "g_id g = c" "g_parentId g = Some x"
      by (auto simp: parentRel_def)
    with step(1) show ?thesis by (auto simp: subtreeIds_def)
  qed
next
  fix y assume "y \<in> insert x (\<Union>c \<in> set (filter (\<lambda>g. g_parentId g = Some x) gs).
                 subtreeIds gs (g_id c))"
  then consider "y = x" | c where "c \<in> set gs" "g_parentId c = Some x" "y \<in> subtreeIds gs (g_id c)"
    by auto
  then show "y \<in> subtreeIds gs x"
  proof cases
    case 1 then show ?thesis by (simp add: subtreeIds_def)
  next
    case 2
    then have "(g_id c, x) \<in> parentRel gs" by (auto simp: parentRel_def)
    with 2(3) show ?thesis by (auto simp: subtreeIds_def intro: rtrancl_into_rtrancl)
  qed
qed

text \<open>Removing one subtree leaves every path that starts outside it.\<close>

lemma path_survives:
  assumes "(y, z) \<in> (parentRel gs)\<^sup>*" and "y \<notin> subtreeIds gs c"
  shows "(y, z) \<in> (parentRel (withoutGroups (subtreeIds gs c) gs))\<^sup>*"
  using assms
proof (induction rule: converse_rtrancl_induct)
  case base then show ?case by simp
next
  case (step y y')
  from step(1) obtain g where g: "g \<in> set gs" "g_id g = y" "g_parentId g = Some y'"
    by (auto simp: parentRel_def)
  with step(4) have "(y, y') \<in> parentRel (withoutGroups (subtreeIds gs c) gs)"
    by (auto simp: parentRel_def withoutGroups_def)
  moreover have "y' \<notin> subtreeIds gs c"
  proof
    assume "y' \<in> subtreeIds gs c"
    with step(1) have "y \<in> subtreeIds gs c"
      by (auto simp: subtreeIds_def intro: converse_rtrancl_into_rtrancl)
    with step(4) show False by simp
  qed
  ultimately show ?case using step.IH by (auto intro: converse_rtrancl_into_rtrancl)
qed

lemma subtreeIds_after_removal:
  "subtreeIds (withoutGroups (subtreeIds gs c) gs) z \<union> subtreeIds gs c
   = subtreeIds gs z \<union> subtreeIds gs c"
proof (intro set_eqI iffI)
  fix y assume "y \<in> subtreeIds (withoutGroups (subtreeIds gs c) gs) z \<union> subtreeIds gs c"
  then show "y \<in> subtreeIds gs z \<union> subtreeIds gs c"
    using rtrancl_mono[OF parentRel_withoutGroups[of "subtreeIds gs c" gs]]
    by (auto simp: subtreeIds_def)
next
  fix y assume a: "y \<in> subtreeIds gs z \<union> subtreeIds gs c"
  show "y \<in> subtreeIds (withoutGroups (subtreeIds gs c) gs) z \<union> subtreeIds gs c"
  proof (cases "y \<in> subtreeIds gs c")
    case True then show ?thesis by simp
  next
    case False
    with a have "(y, z) \<in> (parentRel gs)\<^sup>*" by (simp add: subtreeIds_def)
    from path_survives[OF this False] show ?thesis by (simp add: subtreeIds_def)
  qed
qed


lemma no_cycle:
  assumes "wf W" and "parentRel gs \<subseteq> W" and "(a, b) \<in> parentRel gs"
  shows "(b, a) \<notin> (parentRel gs)\<^sup>*"
proof
  assume "(b, a) \<in> (parentRel gs)\<^sup>*"
  with assms(3) have "(a, a) \<in> (parentRel gs)\<^sup>+" by (rule rtrancl_into_trancl2)
  with assms(2) have "(a, a) \<in> W\<^sup>+" using trancl_mono by blast
  moreover from assms(1) have "wf (W\<^sup>+)" by (rule wf_trancl)
  ultimately show False by (simp add: wf_not_refl)
qed

lemma sibling_not_below:
  assumes wfW: "wf W" and sub: "parentRel gs \<subseteq> W" and d: "distinct (map g_id gs)"
    and c: "c \<in> set gs" "g_parentId c = Some x"
    and c': "c' \<in> set gs" "g_parentId c' = Some x"
    and ne: "g_id c' \<noteq> g_id c"
  shows "g_id c' \<notin> subtreeIds gs (g_id c)"
proof
  assume "g_id c' \<in> subtreeIds gs (g_id c)"
  then have "(g_id c', g_id c) \<in> (parentRel gs)\<^sup>*" by (simp add: subtreeIds_def)
  then show False
  proof (cases rule: converse_rtranclE)
    case base with ne show ?thesis by simp
  next
    case (step z)
    from step(1) obtain g where g: "g \<in> set gs" "g_id g = g_id c'" "g_parentId g = Some z"
      by (auto simp: parentRel_def)
    from d have "inj_on g_id (set gs)" by (simp add: distinct_map)
    with g c'(1) have "g = c'" by (auto dest: inj_onD)
    with g c'(2) have "z = x" by simp
    with step(2) have "(x, g_id c) \<in> (parentRel gs)\<^sup>*" by simp
    moreover from c have "(g_id c, x) \<in> parentRel gs" by (auto simp: parentRel_def)
    ultimately show False using no_cycle[OF wfW sub] by blast
  qed
qed

lemma withoutGroups_empty: "withoutGroups {} gs = gs"
  by (simp add: withoutGroups_def)

lemma reassigned_empty: "reassigned {} t bs = bs"
  by (simp add: reassigned_def map_idI split: option.splits)

lemma removeSubGroups_loop:
  assumes wfW: "wf W"
    and IH: "\<And>c m grp. (c, x) \<in> W \<Longrightarrow> distinct (map g_id (groups m)) \<Longrightarrow>
               parentRel (groups m) \<subseteq> W \<Longrightarrow> find (\<lambda>g. g_id g = c) (groups m) = Some grp \<Longrightarrow>
               \<exists>n. removeGroup n c m =
                 Some (m\<lparr>bookmarks := reassigned (subtreeIds (groups m) c) (g_parentId grp) (bookmarks m),
                         groups := withoutGroups (subtreeIds (groups m) c) (groups m)\<rparr>)"
  shows "distinct (map g_id (groups m)) \<Longrightarrow> parentRel (groups m) \<subseteq> W \<Longrightarrow>
         distinct (map g_id cs) \<Longrightarrow>
         (\<forall>c \<in> set cs. c \<in> set (groups m) \<and> g_parentId c = Some x) \<Longrightarrow>
         \<exists>n. removeSubGroups n cs m =
           Some (m\<lparr>bookmarks := reassigned (\<Union>c \<in> set cs. subtreeIds (groups m) (g_id c))
                                  (Some x) (bookmarks m),
                   groups := withoutGroups (\<Union>c \<in> set cs. subtreeIds (groups m) (g_id c))
                               (groups m)\<rparr>)"
proof (induction cs arbitrary: m)
  case Nil
  have "removeSubGroups 0 [] m = Some m" by simp
  then show ?case by (auto simp: withoutGroups_empty reassigned_empty)
next
  case (Cons c cs)
  let ?gs = "groups m"
  let ?Dc = "subtreeIds ?gs (g_id c)"
  from Cons.prems(4) have cin: "c \<in> set ?gs" and cpar: "g_parentId c = Some x" by simp_all
  then have "(g_id c, x) \<in> parentRel ?gs" by (auto simp: parentRel_def)
  with Cons.prems(2) have cW: "(g_id c, x) \<in> W" by blast
  have fc: "find (\<lambda>g. g_id g = g_id c) ?gs = Some c"
    using find_distinct[OF Cons.prems(1) cin] .
  define m2 where "m2 = m\<lparr>bookmarks := reassigned ?Dc (Some x) (bookmarks m),
                         groups := withoutGroups ?Dc ?gs\<rparr>"
  from IH[OF cW Cons.prems(1) Cons.prems(2) fc] cpar
  obtain n1 where n1: "removeGroup n1 (g_id c) m = Some m2"
    unfolding m2_def by auto
  have g2: "groups m2 = withoutGroups ?Dc ?gs" and b2: "bookmarks m2 = reassigned ?Dc (Some x) (bookmarks m)"
    by (simp_all add: m2_def)
  have d2: "distinct (map g_id (groups m2))"
    unfolding g2 withoutGroups_def using Cons.prems(1) by (rule distinct_map_filter)
  have s2: "parentRel (groups m2) \<subseteq> W"
    unfolding g2 using parentRel_withoutGroups Cons.prems(2) by blast
  have dcs: "distinct (map g_id cs)" using Cons.prems(3) by simp
  have rest: "\<forall>c' \<in> set cs. c' \<in> set (groups m2) \<and> g_parentId c' = Some x"
  proof
    fix c' assume c': "c' \<in> set cs"
    with Cons.prems(4) have in': "c' \<in> set ?gs" and par': "g_parentId c' = Some x" by simp_all
    from c' Cons.prems(3) have "g_id c' \<noteq> g_id c" by (auto simp: image_iff)
    from sibling_not_below[OF wfW Cons.prems(2) Cons.prems(1) cin cpar in' par' this]
    have "g_id c' \<notin> ?Dc" .
    with in' par' show "c' \<in> set (groups m2) \<and> g_parentId c' = Some x"
      by (simp add: g2 withoutGroups_def)
  qed
  from Cons.IH[OF d2 s2 dcs rest]
  obtain n2 where n2: "removeSubGroups n2 cs m2 =
      Some (m2\<lparr>bookmarks := reassigned (\<Union>c \<in> set cs. subtreeIds (groups m2) (g_id c))
                                  (Some x) (bookmarks m2),
               groups := withoutGroups (\<Union>c \<in> set cs. subtreeIds (groups m2) (g_id c))
                               (groups m2)\<rparr>)"
    by blast
  let ?U2 = "\<Union>c \<in> set cs. subtreeIds (groups m2) (g_id c)"
  let ?U = "\<Union>c \<in> set (c # cs). subtreeIds ?gs (g_id c)"
  have "subtreeIds (groups m2) z \<union> ?Dc = subtreeIds ?gs z \<union> ?Dc" for z
    unfolding g2 by (rule subtreeIds_after_removal)
  then have U: "?U2 \<union> ?Dc = ?U" by auto
  have a: "removeGroup (max n1 n2) (g_id c) m = Some m2"
    using removeGroup_depth_mono[OF n1] by simp
  have b: "removeSubGroups (max n1 n2) cs m2 =
      Some (m2\<lparr>bookmarks := reassigned ?U2 (Some x) (bookmarks m2),
               groups := withoutGroups ?U2 (groups m2)\<rparr>)"
    using removeSubGroups_depth_mono[OF n2] by simp
  have e1: "reassigned ?U2 (Some x) (bookmarks m2) = reassigned ?U (Some x) (bookmarks m)"
  proof -
    have "reassigned ?U2 (Some x) (bookmarks m2)
          = reassigned ?U2 (Some x) (reassigned ?Dc (Some x) (bookmarks m))"
      by (rule arg_cong[OF b2])
    also have "\<dots> = reassigned (?U2 \<union> ?Dc) (Some x) (bookmarks m)"
      by (rule reassigned_twice)
    also have "\<dots> = reassigned ?U (Some x) (bookmarks m)"
      by (rule arg_cong[where f = "\<lambda>X. reassigned X (Some x) (bookmarks m)", OF U])
    finally show ?thesis .
  qed
  have e2: "withoutGroups ?U2 (groups m2) = withoutGroups ?U ?gs"
  proof -
    have "withoutGroups ?U2 (groups m2) = withoutGroups ?U2 (withoutGroups ?Dc ?gs)"
      by (rule arg_cong[OF g2])
    also have "\<dots> = withoutGroups (?U2 \<union> ?Dc) ?gs"
      by (rule withoutGroups_twice)
    also have "\<dots> = withoutGroups ?U ?gs"
      by (rule arg_cong[where f = "\<lambda>X. withoutGroups X ?gs", OF U])
    finally show ?thesis .
  qed
  have "m2\<lparr>bookmarks := reassigned ?U2 (Some x) (bookmarks m2),
               groups := withoutGroups ?U2 (groups m2)\<rparr>
        = m\<lparr>bookmarks := reassigned ?U (Some x) (bookmarks m),
             groups := withoutGroups ?U ?gs\<rparr>"
    unfolding e1 e2 by (simp add: m2_def)
  with a b have "removeSubGroups (max n1 n2) (c # cs) m =
      Some (m\<lparr>bookmarks := reassigned ?U (Some x) (bookmarks m),
             groups := withoutGroups ?U ?gs\<rparr>)"
    by simp
  then show ?case by blast
qed

lemma removeGroup_effect:
  assumes wfW: "wf W"
  shows "distinct (map g_id (groups m)) \<Longrightarrow> parentRel (groups m) \<subseteq> W \<Longrightarrow>
         find (\<lambda>g. g_id g = x) (groups m) = Some grp \<Longrightarrow>
         \<exists>n. removeGroup n x m =
           Some (m\<lparr>bookmarks := reassigned (subtreeIds (groups m) x) (g_parentId grp) (bookmarks m),
                   groups := withoutGroups (subtreeIds (groups m) x) (groups m)\<rparr>)"
  using wfW
proof (induction x arbitrary: m grp rule: wf_induct_rule)
  case (less x)
  let ?gs = "groups m"
  let ?cs = "filter (\<lambda>g. g_parentId g = Some x) ?gs"
  let ?U = "\<Union>c \<in> set ?cs. subtreeIds ?gs (g_id c)"
  have dcs: "distinct (map g_id ?cs)" using less.prems(1) by (rule distinct_map_filter)
  have pres: "\<forall>c \<in> set ?cs. c \<in> set ?gs \<and> g_parentId c = Some x" by simp
  have "\<exists>n. removeSubGroups n ?cs m =
           Some (m\<lparr>bookmarks := reassigned ?U (Some x) (bookmarks m),
                   groups := withoutGroups ?U ?gs\<rparr>)"
    by (rule removeSubGroups_loop[OF wfW less.IH less.prems(1) less.prems(2) dcs pres])
  then obtain n where n: "removeSubGroups n ?cs m =
           Some (m\<lparr>bookmarks := reassigned ?U (Some x) (bookmarks m),
                   groups := withoutGroups ?U ?gs\<rparr>)" by blast
  have D: "subtreeIds ?gs x = insert x ?U" by (rule subtreeIds_unfold)
  have "removeGroup (Suc n) x m =
      Some (m\<lparr>bookmarks := reassigned (insert x ?U) (g_parentId grp) (bookmarks m),
              groups := withoutGroups (insert x ?U) ?gs\<rparr>)"
    using less.prems(3) n by (simp add: reassigned_final withoutGroups_final)
  then show ?case unfolding D by blast
qed


text \<open>In a forest the parent relation is well-founded.\<close>

lemma forest_wf:
  assumes "forest gs"
  shows "wf (parentRel gs)"
proof -
  from assms have d: "distinct (map g_id gs)"
    and r: "\<forall>g \<in> set gs. reachesRoot (Suc (length gs)) gs (g_id g)"
    by (simp_all add: forest_def list_all_iff)
  define h where "h x = (LEAST n. reachesRoot n gs x)" for x
  have step: "h p < h c" if "(c, p) \<in> parentRel gs" for c p
  proof -
    from that obtain g where g: "g \<in> set gs" "g_id g = c" "g_parentId g = Some p"
      by (auto simp: parentRel_def)
    have f: "find (\<lambda>y. g_id y = c) gs = Some g"
      using find_distinct[OF d g(1)] g(2) by simp
    from r g have "reachesRoot (Suc (length gs)) gs c" by auto
    then have hc: "reachesRoot (h c) gs c" unfolding h_def by (rule LeastI)
    then have "h c \<noteq> 0" by (auto intro: ccontr)
    then obtain n where n: "h c = Suc n" by (cases "h c") auto
    with hc f g(3) have "reachesRoot n gs p" by simp
    then have "h p \<le> n" unfolding h_def by (rule Least_le)
    with n show ?thesis by simp
  qed
  then have "(parentRel gs)\<inverse> \<subseteq> measure h" by auto
  then have "wf ((parentRel gs)\<inverse>)" by (rule wf_subset[OF wf_measure])
  then have "acyclic ((parentRel gs)\<inverse>)" by (rule wf_acyclic)
  then have ac: "acyclic (parentRel gs)" by simp
  have "parentRel gs \<subseteq> (\<lambda>g. (g_id g, the (g_parentId g))) ` set gs"
    by (auto simp: parentRel_def image_iff intro!: bexI)
  then have "finite (parentRel gs)" by (rule finite_subset) simp
  then show ?thesis using ac by (rule finite_acyclic_wf)
qed

text \<open>
  C5, as the claim states it, fails on a collection with a cycle, and the code can make
  one: no operation checks for cycles. The collection of root group \<open>a\<close> and its child
  \<open>b\<close> is a forest. Dropping \<open>a\<close> on \<open>b\<close> in the tree calls \<open>moveGroupToParent\<close>
  with \<open>b\<close>'s parent, which is \<open>a\<close> itself, as the new parent: afterwards \<open>a\<close> is its
  own parent. On that collection \<open>removeGroup\<close> of \<open>a\<close> does not return, whatever the
  depth bound, so it removes nothing.
\<close>

theorem removeGroup_cycle_counterexample:
  "forest
     [\<lparr>g_id = ''a'', g_name = ''A'', g_isDefault = False, g_created = 1,
        g_parentId = None, g_priority = Some 2\<rparr>,
      \<lparr>g_id = ''b'', g_name = ''B'', g_isDefault = False, g_created = 2,
        g_parentId = Some ''a'', g_priority = Some 1\<rparr>]
   \<and> groups (moveGroupToParent ''a'' (Some ''a'') (Some ''b'')
       \<lparr>bookmarks = [],
        groups =
     [\<lparr>g_id = ''a'', g_name = ''A'', g_isDefault = False, g_created = 1,
        g_parentId = None, g_priority = Some 2\<rparr>,
      \<lparr>g_id = ''b'', g_name = ''B'', g_isDefault = False, g_created = 2,
        g_parentId = Some ''a'', g_priority = Some 1\<rparr>],
        pendingLoad = None\<rparr>)
     =
     [\<lparr>g_id = ''a'', g_name = ''A'', g_isDefault = False, g_created = 1,
        g_parentId = Some ''a'', g_priority = Some 2\<rparr>,
      \<lparr>g_id = ''b'', g_name = ''B'', g_isDefault = False, g_created = 2,
        g_parentId = Some ''a'', g_priority = Some 1\<rparr>]
   \<and> (\<forall>n. removeGroup n ''a''
       \<lparr>bookmarks = [],
        groups =
     [\<lparr>g_id = ''a'', g_name = ''A'', g_isDefault = False, g_created = 1,
        g_parentId = Some ''a'', g_priority = Some 2\<rparr>,
      \<lparr>g_id = ''b'', g_name = ''B'', g_isDefault = False, g_created = 2,
        g_parentId = Some ''a'', g_priority = Some 1\<rparr>],
        pendingLoad = None\<rparr>
     = None)"
proof -
  have "removeGroup n ''a''
       \<lparr>bookmarks = [],
        groups =
     [\<lparr>g_id = ''a'', g_name = ''A'', g_isDefault = False, g_created = 1,
        g_parentId = Some ''a'', g_priority = Some 2\<rparr>,
      \<lparr>g_id = ''b'', g_name = ''B'', g_isDefault = False, g_created = 2,
        g_parentId = Some ''a'', g_priority = Some 1\<rparr>],
        pendingLoad = None\<rparr>
     = None" for n
    by (induction n) simp_all
  then show ?thesis
    by (simp add: forest_def moveGroupToParent_def awaitReady_def renumber_def Let_def)
qed

text \<open>
  C5 (amended). In a group collection with unique ids whose parent links form a forest,
  let a group have the id. Then \<open>removeGroup\<close> returns,
  for every depth bound from some bound on, with one and the same state, in which: the
  groups are the groups before without the group and all its descendants, in the order
  they had; every bookmark that referred to the group or to one of its descendants refers
  to the removed group's \<open>parentId\<close> (ungrouped when absent), and every other
  bookmark is as it was; so no bookmark refers to a removed id, and every id that a
  bookmark refers to and that a group had before, a group still has.
\<close>

theorem removeGroup_cascades:
  fixes m :: BookmarkManager and groupId :: string and grp :: BookmarkGroup
  defines "removed \<equiv> subtreeIds (groups m) groupId"
  assumes f: "forest (groups m)"
    and found: "find (\<lambda>g. g_id g = groupId) (groups m) = Some grp"
  shows "\<exists>depth m'.
      (\<forall>n \<ge> depth. removeGroup n groupId m = Some m')
      \<and> groupId \<in> removed
      \<and> groups m' = filter (\<lambda>g. g_id g \<notin> removed) (groups m)
      \<and> bookmarks m' =
          map (\<lambda>b. case b_groupId b of
                     None \<Rightarrow> b
                   | Some x \<Rightarrow> if x \<in> removed then b\<lparr>b_groupId := g_parentId grp\<rparr> else b)
            (bookmarks m)
      \<and> (\<forall>b \<in> set (bookmarks m'). \<forall>x. b_groupId b = Some x \<longrightarrow>
            x \<notin> removed
            \<and> (x \<in> g_id ` set (groups m) \<longrightarrow> x \<in> g_id ` set (groups m')))"
proof -
  have wfR: "wf (parentRel (groups m))" using f by (rule forest_wf)
  have d: "distinct (map g_id (groups m))" using f by (simp add: forest_def)
  define m' where "m' = m\<lparr>bookmarks := reassigned removed (g_parentId grp) (bookmarks m),
                           groups := withoutGroups removed (groups m)\<rparr>"
  from removeGroup_effect[OF wfR d subset_refl found]
  obtain depth where depth: "removeGroup depth groupId m = Some m'"
    unfolding m'_def removed_def by blast
  have ret: "\<forall>n \<ge> depth. removeGroup n groupId m = Some m'"
    using removeGroup_depth_mono[OF depth] by blast
  have self: "groupId \<in> removed" by (simp add: removed_def subtreeIds_def)
  have g: "groups m' = filter (\<lambda>g. g_id g \<notin> removed) (groups m)"
    by (simp add: m'_def withoutGroups_def)
  have b: "bookmarks m' =
          map (\<lambda>b. case b_groupId b of
                     None \<Rightarrow> b
                   | Some x \<Rightarrow> if x \<in> removed then b\<lparr>b_groupId := g_parentId grp\<rparr> else b)
            (bookmarks m)"
    by (simp add: m'_def reassigned_def)
  have gin: "grp \<in> set (groups m)" and gid: "g_id grp = groupId"
    using found by (auto simp: find_Some_iff)
  have par: "p \<notin> removed" if "g_parentId grp = Some p" for p
  proof -
    from that gin gid have "(groupId, p) \<in> parentRel (groups m)"
      by (auto simp: parentRel_def)
    from no_cycle[OF wfR subset_refl this] show ?thesis
      by (simp add: removed_def subtreeIds_def)
  qed
  have refs: "\<forall>b \<in> set (bookmarks m'). \<forall>x. b_groupId b = Some x \<longrightarrow>
            x \<notin> removed
            \<and> (x \<in> g_id ` set (groups m) \<longrightarrow> x \<in> g_id ` set (groups m'))"
  proof (intro ballI allI impI)
    fix b' x assume b': "b' \<in> set (bookmarks m')" and x: "b_groupId b' = Some x"
    from b' obtain b0 where b0: "b0 \<in> set (bookmarks m)"
      and eq: "b' = (case b_groupId b0 of
                     None \<Rightarrow> b0
                   | Some y \<Rightarrow> if y \<in> removed then b0\<lparr>b_groupId := g_parentId grp\<rparr> else b0)"
      unfolding b by auto
    have nr: "x \<notin> removed"
    proof (cases "b_groupId b0")
      case None with eq x show ?thesis by simp
    next
      case (Some y)
      show ?thesis
      proof (cases "y \<in> removed")
        case True
        with Some eq x have "g_parentId grp = Some x" by simp
        then show ?thesis by (rule par)
      next
        case False
        with Some eq x show ?thesis by simp
      qed
    qed
    then show "x \<notin> removed \<and> (x \<in> g_id ` set (groups m) \<longrightarrow> x \<in> g_id ` set (groups m'))"
      unfolding g by auto
  qed
  from ret self g b refs show ?thesis by blast
qed

theorem removeGroup_cascades_witness:
  "forest [\<lparr>g_id = ''a'', g_name = ''A'', g_isDefault = False, g_created = 1,
                       g_parentId = None, g_priority = Some 1\<rparr>,
                     \<lparr>g_id = ''b'', g_name = ''B'', g_isDefault = False, g_created = 2,
                       g_parentId = Some ''a'', g_priority = Some 2\<rparr>,
                     \<lparr>g_id = ''c'', g_name = ''C'', g_isDefault = False, g_created = 3,
                       g_parentId = Some ''b'', g_priority = Some 3\<rparr>]
   \<and> removeGroup (Suc (Suc (Suc 0))) ''b''
       \<lparr>bookmarks = [sampleBookmark ''k1'' 1 (Some ''c'') None,
                       sampleBookmark ''k2'' 2 (Some ''b'') None,
                       sampleBookmark ''k3'' 3 None None],
           groups = [\<lparr>g_id = ''a'', g_name = ''A'', g_isDefault = False, g_created = 1,
                       g_parentId = None, g_priority = Some 1\<rparr>,
                     \<lparr>g_id = ''b'', g_name = ''B'', g_isDefault = False, g_created = 2,
                       g_parentId = Some ''a'', g_priority = Some 2\<rparr>,
                     \<lparr>g_id = ''c'', g_name = ''C'', g_isDefault = False, g_created = 3,
                       g_parentId = Some ''b'', g_priority = Some 3\<rparr>],
           pendingLoad = None\<rparr>
     = Some
       \<lparr>bookmarks = [sampleBookmark ''k1'' 1 (Some ''a'') None,
                       sampleBookmark ''k2'' 2 (Some ''a'') None,
                       sampleBookmark ''k3'' 3 None None],
           groups = [\<lparr>g_id = ''a'', g_name = ''A'', g_isDefault = False, g_created = 1,
                       g_parentId = None, g_priority = Some 1\<rparr>],
           pendingLoad = None\<rparr>
   \<and> (\<exists>depth. \<forall>n \<ge> depth. removeGroup n ''b''
       \<lparr>bookmarks = [sampleBookmark ''k1'' 1 (Some ''c'') None,
                       sampleBookmark ''k2'' 2 (Some ''b'') None,
                       sampleBookmark ''k3'' 3 None None],
           groups = [\<lparr>g_id = ''a'', g_name = ''A'', g_isDefault = False, g_created = 1,
                       g_parentId = None, g_priority = Some 1\<rparr>,
                     \<lparr>g_id = ''b'', g_name = ''B'', g_isDefault = False, g_created = 2,
                       g_parentId = Some ''a'', g_priority = Some 2\<rparr>,
                     \<lparr>g_id = ''c'', g_name = ''C'', g_isDefault = False, g_created = 3,
                       g_parentId = Some ''b'', g_priority = Some 3\<rparr>],
           pendingLoad = None\<rparr>
     = Some
       \<lparr>bookmarks = [sampleBookmark ''k1'' 1 (Some ''a'') None,
                       sampleBookmark ''k2'' 2 (Some ''a'') None,
                       sampleBookmark ''k3'' 3 None None],
           groups = [\<lparr>g_id = ''a'', g_name = ''A'', g_isDefault = False, g_created = 1,
                       g_parentId = None, g_priority = Some 1\<rparr>],
           pendingLoad = None\<rparr>)"
proof -
  let ?M = "\<lparr>bookmarks = [sampleBookmark ''k1'' 1 (Some ''c'') None,
                       sampleBookmark ''k2'' 2 (Some ''b'') None,
                       sampleBookmark ''k3'' 3 None None],
           groups = [\<lparr>g_id = ''a'', g_name = ''A'', g_isDefault = False, g_created = 1,
                       g_parentId = None, g_priority = Some 1\<rparr>,
                     \<lparr>g_id = ''b'', g_name = ''B'', g_isDefault = False, g_created = 2,
                       g_parentId = Some ''a'', g_priority = Some 2\<rparr>,
                     \<lparr>g_id = ''c'', g_name = ''C'', g_isDefault = False, g_created = 3,
                       g_parentId = Some ''b'', g_priority = Some 3\<rparr>],
           pendingLoad = None\<rparr>"
  let ?M1 = "\<lparr>bookmarks = [sampleBookmark ''k1'' 1 (Some ''a'') None,
                       sampleBookmark ''k2'' 2 (Some ''a'') None,
                       sampleBookmark ''k3'' 3 None None],
           groups = [\<lparr>g_id = ''a'', g_name = ''A'', g_isDefault = False, g_created = 1,
                       g_parentId = None, g_priority = Some 1\<rparr>],
           pendingLoad = None\<rparr>"
  have fo: "forest (groups ?M)"
    by (simp add: forest_def)
  have fd: "find (\<lambda>g. g_id g = ''b'') (groups ?M)
    = Some \<lparr>g_id = ''b'', g_name = ''B'', g_isDefault = False, g_created = 2,
                       g_parentId = Some ''a'', g_priority = Some 2\<rparr>"
    by simp
  have ev: "removeGroup (Suc (Suc (Suc 0))) ''b'' ?M = Some ?M1"
    by (simp add: sampleBookmark_def)
  from removeGroup_cascades[OF fo fd]
  obtain depth m' where r: "\<forall>n \<ge> depth. removeGroup n ''b'' ?M = Some m'" by blast
  then have "removeGroup (max depth (Suc (Suc (Suc 0)))) ''b'' ?M = Some m'" by simp
  moreover have "removeGroup (max depth (Suc (Suc (Suc 0)))) ''b'' ?M = Some ?M1"
    using removeGroup_depth_mono[OF ev] by simp
  ultimately have "m' = ?M1" by simp
  with r have "\<exists>depth. \<forall>n \<ge> depth. removeGroup n ''b'' ?M = Some ?M1" by blast
  with fo ev show ?thesis by simp
qed

subsection \<open>Mutations and the initial load\<close>

text \<open>
  C3 (the code at an input where the claim fails). The claim: every public mutation waits
  for \<open>ready\<close> before it reads or writes the two lists. \<open>createGroup\<close> and
  \<open>removeGroup\<close> do not. Take a manager that was just constructed over a store that
  holds the root group \<open>Work\<close>, with the load still pending. \<open>createGroup\<close> of a second
  root group \<open>Work\<close> reads the empty list, finds no sibling of that name, and appends
  the new group to it, with the load still pending; when the load then finishes, the
  group list is the stored one and the created group is gone. \<open>removeGroup\<close> of the
  stored group's id finds no group in the empty list and returns at once; after the load
  the group is still there. \<open>setGroupAsDefault\<close>, which does wait, acts on the loaded
  list.
\<close>

theorem createGroup_removeGroup_before_load:
  "createGroup ''Work'' False None ''n1'' 9
     (newBookmarkManager None
        (Some [\<lparr>g_id = ''a'', g_name = ''Work'', g_isDefault = False, g_created = 1,
                 g_parentId = None, g_priority = Some 1\<rparr>]))
   = (Some \<lparr>g_id = ''n1'', g_name = ''Work'', g_isDefault = False, g_created = 9,
             g_parentId = None, g_priority = Some 1\<rparr>,
      \<lparr>bookmarks = [],
       groups = [\<lparr>g_id = ''n1'', g_name = ''Work'', g_isDefault = False, g_created = 9,
                   g_parentId = None, g_priority = Some 1\<rparr>],
       pendingLoad =
         Some (None,
               Some [\<lparr>g_id = ''a'', g_name = ''Work'', g_isDefault = False, g_created = 1,
                       g_parentId = None, g_priority = Some 1\<rparr>])\<rparr>)
   \<and> groups (awaitReady (snd (createGroup ''Work'' False None ''n1'' 9
       (newBookmarkManager None
          (Some [\<lparr>g_id = ''a'', g_name = ''Work'', g_isDefault = False, g_created = 1,
                   g_parentId = None, g_priority = Some 1\<rparr>])))))
     = [\<lparr>g_id = ''a'', g_name = ''Work'', g_isDefault = False, g_created = 1,
          g_parentId = None, g_priority = Some 1\<rparr>]
   \<and> removeGroup (Suc 0) ''a''
       (newBookmarkManager None
          (Some [\<lparr>g_id = ''a'', g_name = ''Work'', g_isDefault = False, g_created = 1,
                   g_parentId = None, g_priority = Some 1\<rparr>]))
     = Some (newBookmarkManager None
          (Some [\<lparr>g_id = ''a'', g_name = ''Work'', g_isDefault = False, g_created = 1,
                   g_parentId = None, g_priority = Some 1\<rparr>]))
   \<and> setGroupAsDefault ''a''
       (newBookmarkManager None
          (Some [\<lparr>g_id = ''a'', g_name = ''Work'', g_isDefault = False, g_created = 1,
                   g_parentId = None, g_priority = Some 1\<rparr>]))
     = \<lparr>bookmarks = [],
        groups = [\<lparr>g_id = ''a'', g_name = ''Work'', g_isDefault = True, g_created = 1,
                    g_parentId = None, g_priority = Some 2\<rparr>],
        pendingLoad = None\<rparr>"
  by (simp add: createGroup_def newBookmarkManager_def awaitReady_def loadData_def
      setGroupAsDefault_def maxPriority_def groupPriority_def Let_def)

end
